theory Spec2Isabelle
  imports Complex_Main "HOL-Library.Product_Lexorder"
begin

section \<open>Strings as the Python code uses them\<close>

text \<open>
  A Python \<open>str\<close> is modelled as a \<open>string\<close>, a list of 8-bit characters: the text of a
  dump in UTF-8. Case folding is the ASCII part of \<open>str.lower()\<close>; \<open>sub in s\<close> is contiguous
  containment, and the empty string is contained in every string.
\<close>

definition ascii_upper :: string where
  "ascii_upper = ''ABCDEFGHIJKLMNOPQRSTUVWXYZ''"

definition ascii_lower :: string where
  "ascii_lower = ''abcdefghijklmnopqrstuvwxyz''"

definition lower_char :: "char \<Rightarrow> char" where
  "lower_char c = (case map_of (zip ascii_upper ascii_lower) c of None \<Rightarrow> c | Some d \<Rightarrow> d)"

definition str_lower :: "string \<Rightarrow> string" where
  "str_lower s = map lower_char s"

fun starts_with :: "string \<Rightarrow> string \<Rightarrow> bool" where
  "starts_with [] s = True"
| "starts_with (p # ps) [] = False"
| "starts_with (p # ps) (c # cs) = (p = c \<and> starts_with ps cs)"

text \<open>\<open>str_in sub s\<close> is Python's \<open>sub in s\<close>.\<close>

fun str_in :: "string \<Rightarrow> string \<Rightarrow> bool" where
  "str_in sub [] = (sub = [])"
| "str_in sub (c # cs) = (starts_with sub (c # cs) \<or> str_in sub cs)"

text \<open>\<open>any(k in s for k in ks)\<close>.\<close>

definition any_in :: "string list \<Rightarrow> string \<Rightarrow> bool" where
  "any_in ks s = list_ex (\<lambda>k. str_in k s) ks"

text \<open>\<open>s[i:j]\<close> for \<open>0 \<le> i \<le> j\<close>.\<close>

definition slice :: "string \<Rightarrow> nat \<Rightarrow> nat \<Rightarrow> string" where
  "slice s i j = take (j - i) (drop i s)"

definition digit_val :: "char \<Rightarrow> int" where
  "digit_val c =
     (case map_of (zip ''0123456789'' [0, 1, 2, 3, 4, 5, 6, 7, 8, 9]) c of
        None \<Rightarrow> 0 | Some d \<Rightarrow> d)"

text \<open>
  \<open>int(s)\<close> on a string of decimal digits (what \<open>\d+\<close> captures). The conversion is taken
  as total: CPython's limit on the number of digits aside (see \<open>plain_dump\<close> below), nothing
  inside the \<open>try\<close> blocks of the locators raises, so their \<open>except\<close> clauses are not part
  of the model.
\<close>

definition int_of_digits :: "string \<Rightarrow> int" where
  "int_of_digits s = foldl (\<lambda>a c. 10 * a + digit_val c) 0 s"

section \<open>The regular expressions of accessibility.py\<close>

text \<open>
  The patterns of the module are sequences of single-character atoms, each taken once, or
  under a greedy \<open>*\<close> or \<open>+\<close>, with capture groups. \<open>rx_match\<close> is the backtracking
  matcher of \<open>re\<close> anchored at the current position: a starred atom takes as many
  characters as it can and gives them back one at a time. It returns the positions of
  the group boundaries, in order, and the position where the match ends. \<open>\d\<close> is an ASCII
  digit, and \<open>re.IGNORECASE\<close> folds the ASCII letters.
\<close>

datatype rx_atom =
  Lit char          \<comment> \<open>the character itself\<close>
| LitI char         \<comment> \<open>the character, either case (\<open>re.IGNORECASE\<close>)\<close>
| NoneOf string     \<comment> \<open>\<open>[^...]\<close>\<close>
| OneOf string      \<comment> \<open>\<open>[...]\<close>\<close>
| Digit             \<comment> \<open>\<open>\d\<close>\<close>

datatype rx_item = One rx_atom | Star rx_atom | Plus rx_atom | GOpen | GClose

type_synonym rx = "rx_item list"

fun atom_ok :: "rx_atom \<Rightarrow> char \<Rightarrow> bool" where
  "atom_ok (Lit a) c = (a = c)"
| "atom_ok (LitI a) c = (lower_char a = lower_char c)"
| "atom_ok (NoneOf cs) c = (c \<notin> set cs)"
| "atom_ok (OneOf cs) c = (c \<in> set cs)"
| "atom_ok Digit c = (c \<in> set ''0123456789'')"

fun rx_match :: "rx \<Rightarrow> string \<Rightarrow> nat \<Rightarrow> nat list \<Rightarrow> (nat list \<times> nat) option" where
  "rx_match [] s i gs = Some (rev gs, i)"
| "rx_match (GOpen # r) s i gs = rx_match r s i (i # gs)"
| "rx_match (GClose # r) s i gs = rx_match r s i (i # gs)"
| "rx_match (One a # r) [] i gs = None"
| "rx_match (One a # r) (c # cs) i gs =
     (if atom_ok a c then rx_match r cs (Suc i) gs else None)"
| "rx_match (Plus a # r) [] i gs = None"
| "rx_match (Plus a # r) (c # cs) i gs =
     (if atom_ok a c then rx_match (Star a # r) cs (Suc i) gs else None)"
| "rx_match (Star a # r) [] i gs = rx_match r [] i gs"
| "rx_match (Star a # r) (c # cs) i gs =
     (if atom_ok a c
      then (case rx_match (Star a # r) cs (Suc i) gs of
              Some m \<Rightarrow> Some m
            | None \<Rightarrow> rx_match r (c # cs) i gs)
      else rx_match r (c # cs) i gs)"

text \<open>
  A match object: where it starts and ends in the searched string, and the boundaries of
  its groups. \<open>group t m k\<close> is \<open>m.group(k)\<close> for \<open>k \<ge> 1\<close>, \<open>group0 t m\<close> is \<open>m.group(0)\<close>.
\<close>

record rmatch =
  m_start :: nat
  m_end :: nat
  m_groups :: "nat list"

definition group0 :: "string \<Rightarrow> rmatch \<Rightarrow> string" where
  "group0 t m = slice t (m_start m) (m_end m)"

definition group :: "string \<Rightarrow> rmatch \<Rightarrow> nat \<Rightarrow> string" where
  "group t m k = slice t (m_groups m ! (2 * k - 2)) (m_groups m ! (2 * k - 1))"

text \<open>
  \<open>re.finditer\<close>: the matches from left to right, the search resuming where the last
  match ended (one character further after an empty match). \<open>s\<close> is the text from
  position \<open>i\<close> on.
\<close>

function finditer_from :: "rx \<Rightarrow> string \<Rightarrow> nat \<Rightarrow> rmatch list" where
  "finditer_from p s i =
     (case rx_match p s i [] of
        None \<Rightarrow> (case s of [] \<Rightarrow> [] | c # cs \<Rightarrow> finditer_from p cs (Suc i))
      | Some (gs, e) \<Rightarrow>
          \<lparr>m_start = i, m_end = e, m_groups = gs\<rparr> #
          (case s of
             [] \<Rightarrow> []
           | c # cs \<Rightarrow>
               if i < e then finditer_from p (drop (e - i) (c # cs)) e
               else finditer_from p cs (Suc i)))"
  by pat_completeness auto
termination
  by (relation "measure (\<lambda>(p, s, i). length s)") auto

definition finditer :: "rx \<Rightarrow> string \<Rightarrow> rmatch list" where
  "finditer p t = finditer_from p t 0"

text \<open>\<open>re.search\<close>: the leftmost match, if any.\<close>

fun search_from :: "rx \<Rightarrow> string \<Rightarrow> nat \<Rightarrow> rmatch option" where
  "search_from p [] i =
     (case rx_match p [] i [] of
        None \<Rightarrow> None
      | Some (gs, e) \<Rightarrow> Some \<lparr>m_start = i, m_end = e, m_groups = gs\<rparr>)"
| "search_from p (c # cs) i =
     (case rx_match p (c # cs) i [] of
        None \<Rightarrow> search_from p cs (Suc i)
      | Some (gs, e) \<Rightarrow> Some \<lparr>m_start = i, m_end = e, m_groups = gs\<rparr>)"

definition re_search :: "rx \<Rightarrow> string \<Rightarrow> rmatch option" where
  "re_search p t = search_from p t 0"

definition lit :: "string \<Rightarrow> rx" where
  "lit s = map (\<lambda>c. One (Lit c)) s"

definition lit_i :: "string \<Rightarrow> rx" where
  "lit_i s = map (\<lambda>c. One (LitI c)) s"

definition quote_chars :: string where
  "quote_chars = [CHR 0x22, CHR 0x27]"

text \<open>\<open>["\']\[(\d+),(\d+)\]\[(\d+),(\d+)\]["\']\<close>\<close>

definition rx_bounds_value :: rx where
  "rx_bounds_value =
     [One (OneOf quote_chars), One (Lit (CHR ''['')),
      GOpen, Plus Digit, GClose, One (Lit (CHR '','')),
      GOpen, Plus Digit, GClose, One (Lit (CHR '']'')), One (Lit (CHR ''['')),
      GOpen, Plus Digit, GClose, One (Lit (CHR '','')),
      GOpen, Plus Digit, GClose, One (Lit (CHR '']'')), One (OneOf quote_chars)]"

text \<open>\<open><node[^>]*clickable="true"[^>]*bounds=\<close>, under \<open>re.IGNORECASE\<close>\<close>

definition rx_clickable_prefix :: rx where
  "rx_clickable_prefix =
     lit_i ''<node'' @ [Star (NoneOf ''>'')] @ lit_i ''clickable='' @
     [One (Lit (CHR 0x22))] @ lit_i ''true'' @ [One (Lit (CHR 0x22))] @
     [Star (NoneOf ''>'')] @ lit_i ''bounds=''"

text \<open>The pattern of \<open>find_real_login_button\<close>: a clickable node up to its bounds.\<close>

definition rx_clickable_bounds :: rx where
  "rx_clickable_bounds = rx_clickable_prefix @ rx_bounds_value"

text \<open>The pattern of \<open>find_clickable_elements\<close>: the whole opening tag.\<close>

definition rx_clickable_node :: rx where
  "rx_clickable_node = rx_clickable_bounds @ [Star (NoneOf ''>''), One (Lit (CHR ''>''))]"

text \<open>\<open>name=["\']([^"\']*)["\']\<close>, case-sensitive: how every attribute is read.\<close>

definition rx_attr :: "string \<Rightarrow> rx" where
  "rx_attr name =
     lit name @ [One (Lit (CHR ''='')), One (OneOf quote_chars),
                 GOpen, Star (NoneOf quote_chars), GClose, One (OneOf quote_chars)]"

text \<open>\<open>m.group(1) if m else ""\<close> for the attribute \<open>name\<close> searched in \<open>s\<close>.\<close>

definition attr_or_empty :: "string \<Rightarrow> string \<Rightarrow> string" where
  "attr_or_empty name s =
     (case re_search (rx_attr name) s of None \<Rightarrow> [] | Some m \<Rightarrow> group s m 1)"

section \<open>Dumps on which the model is exact\<close>




section \<open>accessibility.py: the structural element index\<close>

text \<open>
  The dictionary \<open>find_clickable_elements\<close> builds for each clickable node. Its
  \<open>"center"\<close>, \<open>"x"\<close> and \<open>"y"\<close> entries hold the same two numbers.
\<close>

record element =
  e_text :: string
  e_content_desc :: string
  e_class :: string
  e_resource_id :: string
  e_package :: string
  e_bounds :: "int \<times> int \<times> int \<times> int"
  e_x :: int
  e_y :: int
  e_width :: int
  e_height :: int

text \<open>The four numbers of a match whose groups \<open>k\<close> to \<open>k + 3\<close> are the bounds.\<close>

definition bounds_of :: "string \<Rightarrow> rmatch \<Rightarrow> nat \<Rightarrow> int \<times> int \<times> int \<times> int" where
  "bounds_of t m k =
     (int_of_digits (group t m k), int_of_digits (group t m (k + 1)),
      int_of_digits (group t m (k + 2)), int_of_digits (group t m (k + 3)))"

definition element_of_match :: "string \<Rightarrow> rmatch \<Rightarrow> element" where
  "element_of_match t m =
     (case bounds_of t m 1 of (x1, y1, x2, y2) \<Rightarrow>
        let node_text = group0 t m in
        \<lparr>e_text = attr_or_empty ''text'' node_text,
         e_content_desc = attr_or_empty ''content-desc'' node_text,
         e_class = attr_or_empty ''class'' node_text,
         e_resource_id = attr_or_empty ''resource-id'' node_text,
         e_package = attr_or_empty ''package'' node_text,
         e_bounds = (x1, y1, x2, y2),
         e_x = (x1 + x2) div 2,
         e_y = (y1 + y2) div 2,
         e_width = x2 - x1,
         e_height = y2 - y1\<rparr>)"

text \<open>
  \<open>find_clickable_elements\<close>. The argument is what \<open>get_tree_file\<close> returned: \<open>None\<close>, or
  the dump. An absent or empty dump gives the empty list.
\<close>

definition find_clickable_elements :: "string option \<Rightarrow> element list" where
  "find_clickable_elements tree =
     (case tree of
        None \<Rightarrow> []
      | Some t \<Rightarrow> if t = [] then [] else map (element_of_match t) (finditer rx_clickable_node t))"

section \<open>accessibility.py: the bottom-sheet rule\<close>

record button =
  b_x :: int
  b_y :: int
  b_bounds :: "int \<times> int \<times> int \<times> int"
  b_width :: int
  b_height :: int
  b_text :: string
  b_class :: string

definition input_types :: "string list" where
  "input_types =
     [''edittext'', ''textfield'', ''textinput'', ''edit'', ''input'',
      ''autocomplete'', ''searchview'', ''editabletext'']"

definition is_input_field :: "string \<Rightarrow> bool" where
  "is_input_field class_name = any_in input_types (str_lower class_name)"

text \<open>
  The body of the loop of \<open>find_real_login_button\<close> for one match: the button it appends,
  or nothing. The class and the text are searched in the 500 characters that start
  where the match starts.
\<close>

definition login_button_of_match :: "string \<Rightarrow> rmatch \<Rightarrow> button option" where
  "login_button_of_match t m =
     (case bounds_of t m 1 of (x1, y1, x2, y2) \<Rightarrow>
        let width = x2 - x1; height = y2 - y1 in
        if width > 300 \<and> height > 80 then
          let center_x = (x1 + x2) div 2; center_y = (y1 + y2) div 2;
              node_tag = slice t (m_start m) (m_start m + 500);
              class_name = attr_or_empty ''class'' node_tag;
              text_content = attr_or_empty ''text'' node_tag
          in if is_input_field class_name then None
             else Some \<lparr>b_x = center_x, b_y = center_y, b_bounds = (x1, y1, x2, y2),
                        b_width = width, b_height = height,
                        b_text = text_content, b_class = class_name\<rparr>
        else None)"

fun collect_buttons :: "(rmatch \<Rightarrow> button option) \<Rightarrow> rmatch list \<Rightarrow> button list \<Rightarrow> button list" where
  "collect_buttons f [] acc = acc"
| "collect_buttons f (m # ms) acc =
     (case f m of
        None \<Rightarrow> collect_buttons f ms acc
      | Some b \<Rightarrow> collect_buttons f ms (acc @ [b]))"

text \<open>The list \<open>clickable_buttons\<close> when the loop over the matches has ended.\<close>

definition clickable_buttons :: "string \<Rightarrow> button list" where
  "clickable_buttons t =
     collect_buttons (login_button_of_match t) (finditer rx_clickable_bounds t) []"

text \<open>
  \<open>find_real_login_button\<close>: the large clickable buttons, sorted by their vertical centre
  (Python's sort is stable, as \<open>sort_key\<close> is); the first of them is returned.
\<close>

definition find_real_login_button :: "string option \<Rightarrow> (int \<times> int \<times> button) option" where
  "find_real_login_button tree =
     (case tree of
        None \<Rightarrow> None
      | Some t \<Rightarrow>
          if t = [] then None
          else (case sort_key b_y (clickable_buttons t) of
                  [] \<Rightarrow> None
                | best # rest \<Rightarrow> Some (b_x best, b_y best, best)))"

text \<open>
  The nodes of a dump as the claims speak of them, to be compared with what the locator
  reads. \<open>clickable_matches\<close> are the matches of the locator's pattern (its variable
  \<open>matches\<close>). \<open>node_tag\<close> is the opening tag of the node at which a match starts, up to
  its \<open>>\<close>, and \<open>node_class\<close> the class attribute of that tag. \<open>clickable_true\<close> is the
  attribute the pattern asks for, with the blank that separates it from the attribute
  before it (\<open>long-clickable="true"\<close> is another attribute). A node is a large button when
  it is wider than 300 and higher than 80 pixels and its class is not that of an input
  field; \<open>button_of_node\<close> is the record of such a node.
\<close>

definition clickable_matches :: "string \<Rightarrow> rmatch list" where
  "clickable_matches t = finditer rx_clickable_bounds t"

definition node_tag :: "string \<Rightarrow> rmatch \<Rightarrow> string" where
  "node_tag t m = takeWhile (\<lambda>c. c \<noteq> CHR ''>'') (drop (m_start m) t)"





section \<open>accessibility.py: the send control next to an input field\<close>

text \<open>The whitespace \<open>str.strip()\<close> removes, as far as ASCII goes.\<close>

definition is_space :: "char \<Rightarrow> bool" where
  "is_space c =
     (c \<in> set [CHR 0x09, CHR 0x0A, CHR 0x0B, CHR 0x0C, CHR 0x0D,
                CHR 0x1C, CHR 0x1D, CHR 0x1E, CHR 0x1F, CHR 0x20])"

definition str_strip :: "string \<Rightarrow> string" where
  "str_strip s = rev (dropWhile is_space (rev (dropWhile is_space s)))"

text \<open>\<open>a or b\<close> on strings: the empty string is falsy.\<close>

definition str_or :: "string \<Rightarrow> string \<Rightarrow> string" where
  "str_or a b = (if a = [] then b else a)"

text \<open>The upward arrow U+2191, in UTF-8.\<close>

definition up_arrow :: string where
  "up_arrow = [CHR 0xE2, CHR 0x86, CHR 0x91]"

record candidate =
  c_x :: int
  c_y :: int
  c_distance :: int
  c_has_up_arrow :: bool
  c_has_send_indicator :: bool
  c_desc :: string

text \<open>
  The third component of the result: the chosen candidate, or the dictionary of the
  fallback with its \<open>"x"\<close>, \<open>"y"\<close> and \<open>"desc"\<close>.
\<close>

datatype send_info = Candidate candidate | Fallback int int string

text \<open>
  The body of the loop for one element: the candidate it appends, or nothing when one of
  the \<open>continue\<close> tests fires. The tests are in the order of the source.
\<close>

definition send_candidate :: "int \<Rightarrow> int \<Rightarrow> element \<Rightarrow> candidate option" where
  "send_candidate input_x input_y elem =
     (let x = e_x elem; y = e_y elem in
      if x \<le> 0 \<or> y \<le> 0 then None
      else if x \<le> input_x + 20 then None
      else if x - input_x > 450 then None
      else if \<bar>y - input_y\<bar> > 120 then None
      else
        (case e_bounds elem of (x1, y1, x2, y2) \<Rightarrow>
           let w = x2 - x1; h = y2 - y1 in
           if w < 20 \<or> w > 180 \<or> h < 20 \<or> h > 180 then None
           else
             let raw_desc = e_content_desc elem; raw_text = e_text elem;
                 combined = str_lower raw_desc @ '' '' @ str_lower raw_text
             in Some \<lparr>c_x = x, c_y = y,
                       c_distance = (x - input_x)\<^sup>2 + (y - input_y)\<^sup>2,
                       c_has_up_arrow = (str_in up_arrow raw_desc \<or> str_in up_arrow raw_text),
                       c_has_send_indicator =
                         any_in [''send'', ''submit'', ''arrow'', ''up''] combined,
                       c_desc = str_or (str_strip (str_or raw_desc raw_text)) ''(no desc)''\<rparr>))"

fun collect_candidates :: "int \<Rightarrow> int \<Rightarrow> element list \<Rightarrow> candidate list \<Rightarrow> candidate list" where
  "collect_candidates input_x input_y [] acc = acc"
| "collect_candidates input_x input_y (e # es) acc =
     (case send_candidate input_x input_y e of
        None \<Rightarrow> collect_candidates input_x input_y es acc
      | Some c \<Rightarrow> collect_candidates input_x input_y es (acc @ [c]))"

definition CHATGPT_SEND_BUTTON :: "int \<times> int" where
  "CHATGPT_SEND_BUTTON = (990, 1427)"

text \<open>
  \<open>find_send_button_near_input\<close>. The argument \<open>tree\<close> is the dump that the call of
  \<open>find_clickable_elements\<close> fetches.
\<close>

definition find_send_button_near_input ::
  "string option \<Rightarrow> int \<Rightarrow> int \<Rightarrow> (int \<times> int \<times> send_info) option" where
  "find_send_button_near_input tree input_x input_y =
     (let elements = find_clickable_elements tree in
      if elements = [] then None
      else
        (case sort_key (\<lambda>c. (\<not> c_has_up_arrow c, \<not> c_has_send_indicator c, c_distance c))
                (collect_candidates input_x input_y elements []) of
           best # rest \<Rightarrow> Some (c_x best, c_y best, Candidate best)
         | [] \<Rightarrow>
             Some (fst CHATGPT_SEND_BUTTON, snd CHATGPT_SEND_BUTTON,
                   Fallback (fst CHATGPT_SEND_BUTTON) (snd CHATGPT_SEND_BUTTON)
                     ''send (fallback)'')))"

section \<open>accessibility.py: the keyword match\<close>

text \<open>The dictionary returned with the coordinates; only two of the methods set \<open>"class"\<close>.\<close>

record found =
  f_text :: string
  f_bounds :: "int \<times> int \<times> int \<times> int"
  f_center :: "int \<times> int"
  f_class :: "string option"

definition found_at :: "string \<Rightarrow> int \<times> int \<times> int \<times> int \<Rightarrow> string option \<Rightarrow> int \<times> int \<times> found" where
  "found_at txt b cls =
     (case b of (x1, y1, x2, y2) \<Rightarrow>
        let center_x = (x1 + x2) div 2; center_y = (y1 + y2) div 2 in
        (center_x, center_y,
         \<lparr>f_text = txt, f_bounds = (x1, y1, x2, y2), f_center = (center_x, center_y),
          f_class = cls\<rparr>))"

text \<open>\<open><node[^>]*clickable="true"[^>]*NAME=["\']([^"\']*)["\'][^>]*bounds=...\<close>, ignoring case\<close>

definition rx_clickable_with :: "string \<Rightarrow> rx" where
  "rx_clickable_with name =
     lit_i ''<node'' @ [Star (NoneOf ''>'')] @ lit_i ''clickable='' @
     [One (Lit (CHR 0x22))] @ lit_i ''true'' @ [One (Lit (CHR 0x22))] @
     [Star (NoneOf ''>'')] @ lit_i name @
     [One (Lit (CHR ''='')), One (OneOf quote_chars),
      GOpen, Star (NoneOf quote_chars), GClose, One (OneOf quote_chars)] @
     [Star (NoneOf ''>'')] @ lit_i ''bounds='' @ rx_bounds_value"

text \<open>\<open><node[^>]*text=["\']([^"\']*)["\']\<close>, ignoring case\<close>

definition rx_node_text :: rx where
  "rx_node_text =
     lit_i ''<node'' @ [Star (NoneOf ''>'')] @ lit_i ''text'' @
     [One (Lit (CHR ''='')), One (OneOf quote_chars),
      GOpen, Star (NoneOf quote_chars), GClose, One (OneOf quote_chars)]"

text \<open>Method 1: a clickable node whose own \<open>text\<close> attribute holds a keyword.\<close>

fun method1 :: "string \<Rightarrow> string list \<Rightarrow> rmatch list \<Rightarrow> (int \<times> int \<times> found) option" where
  "method1 t kws [] = None"
| "method1 t kws (m # ms) =
     (let txt = str_lower (group t m 1) in
      if txt \<noteq> [] \<and> any_in kws txt
      then Some (found_at (group t m 1) (bounds_of t m 2) None)
      else method1 t kws ms)"

text \<open>
  Method 1B: for each clickable node, the \<open>text\<close> attributes of the nodes that open in
  the 3000 characters after its tag.
\<close>

fun first_child_text :: "string \<Rightarrow> string list \<Rightarrow> rmatch list \<Rightarrow> string option" where
  "first_child_text sec kws [] = None"
| "first_child_text sec kws (c # cs) =
     (let child_text = str_strip (str_lower (group sec c 1)) in
      if child_text \<noteq> [] \<and> any_in kws child_text then Some (group sec c 1)
      else first_child_text sec kws cs)"

fun method1b :: "string \<Rightarrow> string list \<Rightarrow> rmatch list \<Rightarrow> (int \<times> int \<times> found) option" where
  "method1b t kws [] = None"
| "method1b t kws (m # ms) =
     (let start_pos = m_end m;
          search_end = min (start_pos + 3000) (length t);
          node_section = slice t start_pos search_end
      in case first_child_text node_section kws (finditer rx_node_text node_section) of
           Some txt \<Rightarrow> Some (found_at txt (bounds_of t m 1) None)
         | None \<Rightarrow> method1b t kws ms)"

text \<open>
  Method 1C: for each node whose text holds a keyword, the last clickable node whose tag
  lies in the 8000 characters before it.
\<close>

fun method1c :: "string \<Rightarrow> string list \<Rightarrow> rmatch list \<Rightarrow> (int \<times> int \<times> found) option" where
  "method1c t kws [] = None"
| "method1c t kws (m # ms) =
     (let txt = str_strip (str_lower (group t m 1));
          original_text = str_strip (group t m 1)
      in if txt \<noteq> [] \<and> any_in kws txt
         then (let text_pos = m_start m;
                   search_start = text_pos - 8000;
                   section_before = slice t search_start text_pos;
                   clickable_matches = finditer rx_clickable_node section_before
               in if clickable_matches \<noteq> []
                  then Some (found_at original_text
                               (bounds_of section_before (last clickable_matches) 1) None)
                  else method1c t kws ms)
         else method1c t kws ms)"

text \<open>Method 2: a clickable node whose \<open>content-desc\<close> holds a keyword.\<close>

fun method2 :: "string \<Rightarrow> string list \<Rightarrow> rmatch list \<Rightarrow> (int \<times> int \<times> found) option" where
  "method2 t kws [] = None"
| "method2 t kws (m # ms) =
     (if any_in kws (str_lower (group t m 1))
      then Some (found_at (group t m 1) (bounds_of t m 2) None)
      else method2 t kws ms)"

text \<open>
  Method 3: a clickable node of a button class, with a keyword in its text, content
  description or resource id.
\<close>

definition found_text :: "string \<Rightarrow> string" where
  "found_text node_text =
     (case re_search (rx_attr ''text'') node_text of
        Some m \<Rightarrow> group node_text m 1
      | None \<Rightarrow>
          (case re_search (rx_attr ''content-desc'') node_text of
             Some m \<Rightarrow> group node_text m 1
           | None \<Rightarrow>
               (case re_search (rx_attr ''resource-id'') node_text of
                  Some m \<Rightarrow> group node_text m 1
                | None \<Rightarrow> ''button'')))"

fun method3 :: "string \<Rightarrow> string list \<Rightarrow> rmatch list \<Rightarrow> (int \<times> int \<times> found) option" where
  "method3 t kws [] = None"
| "method3 t kws (m # ms) =
     (let node_text = group0 t m;
          element_class = str_lower (attr_or_empty ''class'' node_text);
          resource_id = str_lower (attr_or_empty ''resource-id'' node_text);
          txt = str_lower (attr_or_empty ''text'' node_text);
          content_desc = str_lower (attr_or_empty ''content-desc'' node_text);
          is_button = (str_in ''button'' element_class \<or> str_in ''imagebutton'' element_class);
          all_text = str_lower (txt @ '' '' @ content_desc @ '' '' @ resource_id)
      in if is_button \<and> any_in kws all_text
         then Some (found_at (found_text node_text) (bounds_of t m 1) (Some element_class))
         else method3 t kws ms)"

text \<open>
  Method 4: an element of \<open>find_clickable_elements\<close> that looks like a button, lies in
  the middle of a 1080 by 2400 screen and has a keyword in its text or class.
\<close>

fun method4 :: "string list \<Rightarrow> element list \<Rightarrow> (int \<times> int \<times> found) option" where
  "method4 kws [] = None"
| "method4 kws (elem # es) =
     (let x = e_x elem; y = e_y elem;
          elem_class = str_lower (e_class elem);
          txt = str_lower (e_text elem)
      in case e_bounds elem of (x1, y1, x2, y2) \<Rightarrow>
           let width = x2 - x1; height = y2 - y1;
               is_button_like =
                 (str_in ''button'' elem_class \<or>
                  (width > 200 \<and> height > 50 \<and> width < 1000 \<and> height < 200));
               is_reasonable_position =
                 (y > 300 \<and> y < 2400 - 200 \<and> x > 100 \<and> x < 1080 - 100)
           in if is_button_like \<and> is_reasonable_position \<and>
                 any_in kws (str_lower (txt @ '' '' @ elem_class))
              then Some (x, y,
                         \<lparr>f_text = str_or txt ''button'', f_bounds = e_bounds elem,
                          f_center = (x, y), f_class = Some elem_class\<rparr>)
              else method4 kws es)"

text \<open>
  \<open>find_button_by_keywords\<close>: the methods in turn, the first result returned. \<open>tree\<close> is
  the dump fetched at the start, \<open>tree2\<close> the one that \<open>find_clickable_elements\<close> fetches
  when method 4 is reached.
\<close>

definition find_button_by_keywords ::
  "string option \<Rightarrow> string option \<Rightarrow> string list \<Rightarrow> (int \<times> int \<times> found) option" where
  "find_button_by_keywords tree tree2 keywords =
     (case tree of
        None \<Rightarrow> None
      | Some t \<Rightarrow>
          if t = [] then None
          else
            let keywords_lower = map str_lower keywords in
            (case method1 t keywords_lower (finditer (rx_clickable_with ''text'') t) of
               Some r \<Rightarrow> Some r
             | None \<Rightarrow>
            (case method1b t keywords_lower (finditer rx_clickable_node t) of
               Some r \<Rightarrow> Some r
             | None \<Rightarrow>
            (case method1c t keywords_lower (finditer rx_node_text t) of
               Some r \<Rightarrow> Some r
             | None \<Rightarrow>
            (case method2 t keywords_lower (finditer (rx_clickable_with ''content-desc'') t) of
               Some r \<Rightarrow> Some r
             | None \<Rightarrow>
            (case method3 t keywords_lower (finditer rx_clickable_node t) of
               Some r \<Rightarrow> Some r
             | None \<Rightarrow> method4 keywords_lower (find_clickable_elements tree2)))))))"

section \<open>actions.py: the coordinate reconciler and the tap\<close>

text \<open>
  \<open>int(r)\<close> on a float: truncation towards zero.
\<close>

definition py_int :: "real \<Rightarrow> int" where
  "py_int r = (if 0 \<le> r then \<lfloor>r\<rfloor> else \<lceil>r\<rceil>)"

text \<open>
  A Python float is an IEEE 754 double. A finite double is a real number, and every
  operation of the reconciler (the true division of two integers, the conversion of an
  integer that meets a float, the product and the sum of two floats) returns the exact
  result rounded to the nearest double, a tie going to the even significand.
  \<open>float_round\<close> is that rounding: for \<open>x\<close> in the binade \<open>2\<^sup>L \<le> \<bar>x\<bar> < 2\<^sup>L\<^sup>+\<^sup>1\<close> the doubles
  are the multiples of \<open>2\<^sup>L\<^sup>-\<^sup>5\<^sup>2\<close>, and below \<open>2\<^sup>-\<^sup>1\<^sup>0\<^sup>2\<^sup>2\<close> the multiples of \<open>2\<^sup>-\<^sup>1\<^sup>0\<^sup>7\<^sup>4\<close>. A result
  that rounds to \<open>2\<^sup>1\<^sup>0\<^sup>2\<^sup>4\<close> or beyond is not finite.
\<close>

definition round_half_even :: "real \<Rightarrow> int" where
  "round_half_even x =
     (let n = \<lfloor>x\<rfloor>; d = x - of_int n in
        if d < 1 / 2 then n
        else if 1 / 2 < d then n + 1
        else if even n then n else n + 1)"

definition float_round :: "real \<Rightarrow> real" where
  "float_round x =
     (if x = 0 then 0
      else let e = max (\<lfloor>log 2 \<bar>x\<bar>\<rfloor> - 52) (- 1074) in
        of_int (round_half_even (x / 2 powr of_int e)) * 2 powr of_int e)"

definition finite_float :: "real \<Rightarrow> bool" where
  "finite_float r = (\<bar>r\<bar> < 2 ^ 1024)"

text \<open>\<open>SCREEN / screenshot if screenshot > 0 else 1.0\<close>\<close>

definition scale_factor :: "int \<Rightarrow> int \<Rightarrow> real" where
  "scale_factor screen screenshot =
     (if screenshot > 0 then float_round (of_int screen / of_int screenshot) else 1)"

text \<open>
  The instance attributes \<open>SCREEN_WIDTH\<close>, \<open>SCREEN_HEIGHT\<close> and \<open>STATUS_BAR_HEIGHT\<close> of
  \<open>DeviceActions\<close> (1080, 2400 and 50 unless the device reports other values).
\<close>

record device_dims =
  SCREEN_WIDTH :: int
  SCREEN_HEIGHT :: int
  STATUS_BAR_HEIGHT :: int

text \<open>
  \<open>map_vision_to_device_coords\<close>, operation by operation. Where a result is not finite
  Python raises \<open>OverflowError\<close>, at once (the division, the conversion of an integer) or
  when \<open>int\<close> meets the infinity the float operation returned; the function then returns
  nothing, which is \<open>None\<close> here.
\<close>

definition map_vision_to_device_coords ::
  "device_dims \<Rightarrow> int \<Rightarrow> int \<Rightarrow> int \<Rightarrow> int \<Rightarrow> (int \<times> int) option" where
  "map_vision_to_device_coords d x_vision y_vision screenshot_width screenshot_height =
     (let scale_x = scale_factor (SCREEN_WIDTH d) screenshot_width;
          scale_y = scale_factor (SCREEN_HEIGHT d) screenshot_height;
          x_float = float_round (of_int x_vision);
          x_scaled = float_round (x_float * scale_x);
          y_float = float_round (of_int y_vision);
          y_scaled = float_round (y_float * scale_y);
          bar_float = float_round (of_int (STATUS_BAR_HEIGHT d));
          y_shifted = float_round (y_scaled + bar_float)
      in if list_all finite_float
              [scale_x, scale_y, x_float, x_scaled, y_float, y_scaled, bar_float, y_shifted]
         then Some (py_int x_scaled, py_int y_shifted)
         else None)"

text \<open>
  The device: \<open>device.shell\<close> either raises or returns its output. The one command that
  \<open>tap\<close> sends, \<open>input tap x y\<close>, is the constructor \<open>InputTap x y\<close>.
\<close>

datatype command = InputTap int int

datatype shell_outcome = Raises | Returns string

text \<open>
  \<open>tap\<close> returns its boolean and the commands it sent to the device. The coordinates are
  first clamped into the screen; a clamped coordinate that is not positive is refused.
  \<open>time.sleep\<close> raises on a negative delay, which the \<open>except\<close> clause turns into \<open>False\<close>.
\<close>

definition tap ::
  "device_dims \<Rightarrow> (command \<Rightarrow> shell_outcome) \<Rightarrow> int \<Rightarrow> int \<Rightarrow> real \<Rightarrow> bool \<times> command list" where
  "tap d shell x0 y0 delay =
     (let x = max 0 (min x0 (SCREEN_WIDTH d));
          y = max 0 (min y0 (SCREEN_HEIGHT d))
      in if x = 0 \<and> y = 0 then (False, [])
         else if x \<le> 0 \<or> y \<le> 0 then (False, [])
         else (case shell (InputTap x y) of
                 Raises \<Rightarrow> (False, [InputTap x y])
               | Returns result \<Rightarrow>
                   if result \<noteq> [] \<and> str_in ''error'' (str_lower result)
                   then (False, [InputTap x y])
                   else if delay < 0 then (False, [InputTap x y])
                   else (True, [InputTap x y])))"

section \<open>orchestrator.py: coordinate validation\<close>

definition STATUS_BAR_MAX :: int where
  "STATUS_BAR_MAX = 100"

definition validate_coordinates :: "device_dims \<Rightarrow> int \<Rightarrow> int \<Rightarrow> bool" where
  "validate_coordinates d x y =
     (if x < 1 \<or> y < 1 then False
      else if x > SCREEN_WIDTH d \<or> y > SCREEN_HEIGHT d then False
      else if y < STATUS_BAR_MAX then False
      else True)"

section \<open>error\_recovery.py: retry with backoff\<close>

text \<open>
  What one call of the action does: it raises an \<open>Exception\<close>, which the loop catches, or
  it returns a value. \<open>truthy\<close> says which values Python takes as true. The action is
  indexed by the attempt, so it may answer differently each time. The delay is a Python
  float that is only ever doubled; it is modelled as a real number.
\<close>

datatype 'a outcome = Raised | Returned 'a

text \<open>
  How the call ends: it returns the truthy result of an attempt, it returns \<open>None\<close> after
  the last attempt, or \<open>time.sleep\<close> raises \<open>ValueError\<close> on a negative delay (the sleep
  is outside the \<open>try\<close>).
\<close>

datatype 'a retry_end = Result 'a | Exhausted | SleepRaised

record 'a retry_result =
  r_end :: "'a retry_end"
  r_slept :: "real list"
  r_calls :: nat

text \<open>
  The loop over \<open>range(max_retries)\<close>: \<open>slept\<close> are the delays passed to \<open>time.sleep\<close> so
  far, \<open>calls\<close> counts the calls of the action.
\<close>

fun retry_loop ::
  "('a \<Rightarrow> bool) \<Rightarrow> (nat \<Rightarrow> 'a outcome) \<Rightarrow> int \<Rightarrow> nat list \<Rightarrow> real \<Rightarrow> real list \<Rightarrow> nat
   \<Rightarrow> 'a retry_result" where
  "retry_loop truthy action max_retries [] delay slept calls =
     \<lparr>r_end = Exhausted, r_slept = slept, r_calls = calls\<rparr>"
| "retry_loop truthy action max_retries (attempt # rest) delay slept calls =
     (let failed =
            (if int attempt < max_retries - 1
             then (if delay < 0
                   then \<lparr>r_end = SleepRaised, r_slept = slept, r_calls = Suc calls\<rparr>
                   else retry_loop truthy action max_retries rest (delay * 2) (slept @ [delay])
                          (Suc calls))
             else retry_loop truthy action max_retries rest delay slept (Suc calls))
      in case action attempt of
           Raised \<Rightarrow> failed
         | Returned result \<Rightarrow>
             if truthy result
             then \<lparr>r_end = Result result, r_slept = slept, r_calls = Suc calls\<rparr>
             else failed)"

definition retry_with_backoff ::
  "int \<Rightarrow> real \<Rightarrow> ('a \<Rightarrow> bool) \<Rightarrow> (nat \<Rightarrow> 'a outcome) \<Rightarrow> 'a retry_result" where
  "retry_with_backoff max_retries retry_delay truthy action =
     retry_loop truthy action max_retries [0..<nat max_retries] retry_delay [] 0"

text \<open>An attempt succeeds when the action returns a truthy value.\<close>

definition succeeds :: "('a \<Rightarrow> bool) \<Rightarrow> 'a outcome \<Rightarrow> bool" where
  "succeeds truthy out = (case out of Raised \<Rightarrow> False | Returned r \<Rightarrow> truthy r)"

section \<open>orchestrator.py: the workflow\<close>

text \<open>
  The keys of the workflow state that the nodes and the routing functions read and
  write. A key that is absent reads as \<open>False\<close> or \<open>None\<close> (\<open>state.get\<close>), so absence is
  \<open>False\<close> or \<open>None\<close> here. \<open>intent_action\<close>, \<open>intent_app\<close> and \<open>intent_wants_login\<close>
  are the entries \<open>action\<close>, \<open>app\<close> and \<open>wants_login\<close> of \<open>intent_parts\<close>;
  \<open>google_login_complete\<close> stands for \<open>login_complete and login_method == "google"\<close>.
\<close>

record wstate =
  user_intent :: string
  iteration_count :: int
  intent_action :: "string option"
  intent_app :: "string option"
  intent_wants_login :: bool
  needs_auth :: bool
  auth_success :: bool
  auth_message :: "string option"
  action_success :: bool
  task_complete :: bool
  session_active :: bool
  needs_confirmation :: bool
  needs_query_execution :: bool
  error :: "string option"
  pending_query :: "string option"
  pending_app :: "string option"
  query_session_follow_up :: bool
  whatsapp_follow_up :: bool
  google_login_complete :: bool

text \<open>
  What the workflow does to the world outside its state: the screen captures of
  \<open>_observe\<close> (each with its \<open>detect_elements\<close> flag), the sentences spoken by \<open>_observe\<close>,
  and the number of runs of \<open>_perform_llm_guided_login\<close>.
\<close>

record world =
  captures :: "bool list"
  spoken :: "string list"
  logins :: nat

text \<open>
  The collaborators the nodes call. \<open>parse_intent\<close> gives the action, the app and
  \<open>wants_login\<close> of a command; \<open>llm_guided_login k\<close> is the result of the \<open>k\<close>-th run of the
  guided login; \<open>launch_app\<close> says whether the app started. The remaining fields are the
  parts of the nodes that drive the device and the description service: the other
  branches of \<open>_act\<close>, the \<open>open_app\<close> branch of \<open>_verify\<close>, and the nodes \<open>_confirm_action\<close>,
  \<open>_execute_query\<close>, \<open>_respond\<close> and \<open>_handle_error\<close>. Every collaborator returns: a call
  that raises ends the whole run with its exception and is not part of the model.
\<close>

record env =
  parse_intent :: "string \<Rightarrow> string option \<times> string option \<times> bool"
  llm_guided_login :: "nat \<Rightarrow> bool \<times> string"
  launch_app :: "string \<Rightarrow> bool"
  act_other :: "wstate \<Rightarrow> wstate"
  verify_open_app :: "wstate \<Rightarrow> wstate"
  confirm_action :: "wstate \<Rightarrow> wstate"
  execute_query :: "wstate \<Rightarrow> wstate"
  respond :: "wstate \<Rightarrow> wstate"
  handle_error :: "wstate \<Rightarrow> wstate"

text \<open>Python's truth of an optional string: \<open>None\<close> and \<open>""\<close> are false.\<close>

definition truthy_str :: "string option \<Rightarrow> bool" where
  "truthy_str s = (case s of None \<Rightarrow> False | Some t \<Rightarrow> t \<noteq> [])"

definition max_iterations :: int where
  "max_iterations = 5"

definition observe :: "wstate \<times> world \<Rightarrow> wstate \<times> world" where
  "observe c =
     (case c of (state0, w) \<Rightarrow>
        let state = state0\<lparr>iteration_count := iteration_count state0 + 1\<rparr> in
        if iteration_count state > max_iterations
        then (state\<lparr>error := Some ''Maximum iterations reached. Task may be incomplete.'',
                     task_complete := True\<rparr>,
              w\<lparr>spoken := spoken w @
                 [''I've tried multiple times but couldn't complete the task. Please try again with a clearer command.'']\<rparr>)
        else
          let needs_elements = (needs_auth state \<or> pending_query state \<noteq> None)
          in (state, w\<lparr>captures := captures w @ [needs_elements]\<rparr>))"

definition analyze :: "env \<Rightarrow> wstate \<Rightarrow> wstate" where
  "analyze e state =
     (if query_session_follow_up state \<and> truthy_str (pending_query state) \<and>
         truthy_str (pending_app state)
      then state\<lparr>intent_action := Some ''open_app'', intent_app := pending_app state,
                  intent_wants_login := False,
                  needs_query_execution := True\<rparr>
      else if whatsapp_follow_up state \<and> intent_action state = Some ''send_whatsapp_message''
      then state
      else
        (case parse_intent e (user_intent state) of (act, ap, wl) \<Rightarrow>
           state\<lparr>intent_action := act, intent_app := ap, intent_wants_login := wl,
                 needs_auth := wl\<rparr>))"

definition should_authenticate :: "wstate \<Rightarrow> string" where
  "should_authenticate state =
     (if intent_action state = Some ''open_app'' \<and> action_success state then ''act''
      else if intent_action state = Some ''login'' \<and> session_active state then ''authenticate''
      else if needs_auth state
      then (if google_login_complete state then ''act'' else ''authenticate'')
      else ''act'')"

definition authenticate :: "env \<Rightarrow> wstate \<times> world \<Rightarrow> wstate \<times> world" where
  "authenticate e c =
     (case c of (state, w) \<Rightarrow>
        if google_login_complete state
        then (state\<lparr>auth_success := True, auth_message := Some ''Logged in via Google'',
                     action_success := True, session_active := True,
                     task_complete := False\<rparr>, w)
        else
          (case llm_guided_login e (logins w) of (success, message) \<Rightarrow>
             let state1 = state\<lparr>auth_success := success, auth_message := Some message,
                                  action_success := success\<rparr>;
                 w1 = w\<lparr>logins := Suc (logins w)\<rparr>
             in if success
                then (state1\<lparr>session_active := True, task_complete := False\<rparr>, w1)
                else (state1\<lparr>error := Some message, task_complete := False\<rparr>, w1)))"

text \<open>
  \<open>_act\<close>: the branches that only set keys of the state are written out; the branches
  that drive the device for a message, a payment, a tap, a search or an extraction are
  \<open>act_other\<close>.
\<close>

definition act :: "env \<Rightarrow> wstate \<Rightarrow> wstate" where
  "act e state =
     (if query_session_follow_up state then state\<lparr>action_success := True\<rparr>
      else if intent_action state = Some ''open_app'' then
        (case intent_app state of
           Some app_name \<Rightarrow>
             if app_name = [] then
               state\<lparr>action_success := False,
                     error := Some ''Could not understand which app to open. Please say 'open' followed by the app name.'',
                     task_complete := True\<rparr>
             else if launch_app e app_name then state\<lparr>action_success := True\<rparr>
             else state\<lparr>action_success := False,
                        error := Some (''Failed to open '' @ app_name @
                                  ''. App may not be installed or package name incorrect.''),
                        task_complete := True\<rparr>
         | None \<Rightarrow>
             state\<lparr>action_success := False,
                   error := Some ''Could not understand which app to open. Please say 'open' followed by the app name.'',
                   task_complete := True\<rparr>)
      else if intent_action state = Some ''close_app''
      then state\<lparr>action_success := True, task_complete := True\<rparr>
      else if intent_action state = Some ''login''
      then state\<lparr>action_success := True, needs_auth := True, task_complete := False\<rparr>
      else if intent_action state \<in> set (map Some [''send_whatsapp_message'', ''send_payment'',
                ''tap_element'', ''search'', ''query'', ''extract''])
      then act_other e state
      else state\<lparr>action_success := False,
                 error := Some (''Unknown action: '' @
                           (case intent_action state of None \<Rightarrow> ''None'' | Some a \<Rightarrow> a))\<rparr>)"

definition verify :: "env \<Rightarrow> wstate \<Rightarrow> wstate" where
  "verify e state =
     (if action_success state
      then (if intent_action state = Some ''open_app'' then verify_open_app e state
            else state\<lparr>task_complete := False, session_active := True\<rparr>)
      else state)"

definition is_complete :: "wstate \<Rightarrow> string" where
  "is_complete state =
     (if needs_auth state then ''authenticate''
      else if task_complete state \<and> \<not> session_active state then ''complete''
      else if needs_confirmation state then ''confirm''
      else if needs_query_execution state then ''execute_query''
      else if truthy_str (error state) \<and> \<not> session_active state then ''error''
      else if session_active state then ''complete''
      else ''continue'')"

text \<open>The graph of \<open>_build_workflow\<close>: its nodes, and \<open>END\<close>.\<close>

datatype node =
  Observe | Analyze | Act | Authenticate | Verify | Respond | HandleError
| ConfirmAction | ExecuteQuery | END

text \<open>One node runs, and the edge out of it is followed.\<close>

definition step :: "env \<Rightarrow> node \<Rightarrow> wstate \<times> world \<Rightarrow> node \<times> wstate \<times> world" where
  "step e n c =
     (case n of
        Observe \<Rightarrow> (Analyze, observe c)
      | Analyze \<Rightarrow>
          (let state = analyze e (fst c) in
           (if should_authenticate state = ''authenticate'' then Authenticate else Act,
            state, snd c))
      | Authenticate \<Rightarrow> (Verify, authenticate e c)
      | Act \<Rightarrow> (Verify, act e (fst c), snd c)
      | Verify \<Rightarrow>
          (let state = verify e (fst c); r = is_complete state in
           (if r = ''complete'' then Respond
            else if r = ''confirm'' then ConfirmAction
            else if r = ''execute_query'' then ExecuteQuery
            else if r = ''authenticate'' then Authenticate
            else if r = ''continue'' then Observe
            else HandleError,
            state, snd c))
      | ConfirmAction \<Rightarrow>
          (let state = confirm_action e (fst c) in
           (if needs_query_execution state then ExecuteQuery else Respond, state, snd c))
      | ExecuteQuery \<Rightarrow> (Respond, execute_query e (fst c), snd c)
      | HandleError \<Rightarrow> (Respond, handle_error e (fst c), snd c)
      | Respond \<Rightarrow> (END, respond e (fst c), snd c)
      | END \<Rightarrow> (END, c))"

text \<open>
  The graph run for at most \<open>k\<close> steps from node \<open>n\<close>: the final state when \<open>END\<close> is
  reached within them, \<open>None\<close> when the run is still under way.
\<close>

fun run :: "env \<Rightarrow> nat \<Rightarrow> node \<Rightarrow> wstate \<times> world \<Rightarrow> (wstate \<times> world) option" where
  "run e k END c = Some c"
| "run e 0 n c = None"
| "run e (Suc k) n c = (case step e n c of (n', c') \<Rightarrow> run e k n' c')"

text \<open>The state \<open>process_command\<close> starts the workflow with, outside a follow-up session.\<close>

definition initial_state :: "string \<Rightarrow> wstate" where
  "initial_state user_command =
     \<lparr>user_intent = user_command, iteration_count = 0, intent_action = None,
      intent_app = None, intent_wants_login = False, needs_auth = False, auth_success = False, auth_message = None,
      action_success = False, task_complete = False, session_active = False,
      needs_confirmation = False, needs_query_execution = False, error = None,
      pending_query = None, pending_app = None, query_session_follow_up = False,
      whatsapp_follow_up = False, google_login_complete = False\<rparr>"

definition initial_world :: world where
  "initial_world = \<lparr>captures = [], spoken = [], logins = 0\<rparr>"

section \<open>Concrete inputs\<close>

text \<open>The dimensions \<open>DeviceActions\<close> starts with.\<close>

definition default_dims :: device_dims where
  "default_dims = \<lparr>SCREEN_WIDTH = 1080, SCREEN_HEIGHT = 2400, STATUS_BAR_HEIGHT = 50\<rparr>"

text \<open>
  Two large buttons, the lower one first in the dump: their vertical centres are 900 and
  400.
\<close>

definition dump_two_buttons :: string where
  \<open>dump_two_buttons = ''<node text="Log in" class="android.widget.Button" clickable="true" bounds="[90,840][990,960]" /><node text="Continue with Google" class="android.widget.Button" clickable="true" bounds="[90,340][990,460]" />''\<close>




text \<open>
  A login form as \<open>uiautomator\<close> dumps it (\<open>text\<close> before \<open>class\<close> before \<open>clickable\<close> before
  \<open>bounds\<close>): a clickable text box, then the button labelled "Login".
\<close>

definition dump_login_form :: string where
  \<open>dump_login_form = ''<node index="0" text="" class="android.widget.EditText" clickable="true" bounds="[100,500][980,620]" /><node index="1" text="Login" class="android.widget.Button" clickable="true" bounds="[100,700][980,820]" />''\<close>

text \<open>
  A clickable text box whose text is 500 characters long, so that its class lies beyond
  the 500 characters that \<open>find_real_login_button\<close> reads, followed by a button.
\<close>

definition long_text_head :: string where
  \<open>long_text_head = '' index="0" text="'' @ replicate 500 (CHR ''a'')\<close>

definition long_text_tail :: string where
  \<open>long_text_tail = ''" class="android.widget.EditText" clickable="true" bounds="[90,340][990,460]" /><node index="1" text="Log in" class="android.widget.Button" clickable="true" bounds="[90,840][990,960]" />''\<close>

definition dump_long_text_box :: string where
  "dump_long_text_box = ''<node'' @ long_text_head @ long_text_tail"

text \<open>A square screen of \<open>2\<^sup>5\<^sup>5 + 3\<close> pixels: the coordinates themselves are no doubles.\<close>

definition huge_dims :: device_dims where
  "huge_dims = \<lparr>SCREEN_WIDTH = 36028797018963971, SCREEN_HEIGHT = 36028797018963971,
                 STATUS_BAR_HEIGHT = 50\<rparr>"

text \<open>
  The collaborators on a run of the command "login": \<open>_parse_intent\<close> gives the action
  \<open>login\<close> (no app, no \<open>wants_login\<close>), and the guided login fails each time.
\<close>

definition login_env :: env where
  "login_env =
     \<lparr>parse_intent = (\<lambda>cmd. (Some ''login'', None, False)),
      llm_guided_login = (\<lambda>k. (False, ''Login failed'')),
      launch_app = (\<lambda>a. False),
      act_other = (\<lambda>s. s),
      verify_open_app = (\<lambda>s. s),
      confirm_action = (\<lambda>s. s),
      execute_query = (\<lambda>s. s),
      respond = (\<lambda>s. s),
      handle_error = (\<lambda>s. s)\<rparr>"

section \<open>Properties of the coordinate reconciler and the tap\<close>

lemma round_half_even_of_int: "round_half_even (of_int m) = m"
  by (simp add: round_half_even_def)

lemma round_half_even_error: "\<bar>of_int (round_half_even x) - x\<bar> \<le> 1 / 2"
  unfolding round_half_even_def Let_def
  by (auto simp: abs_if) linarith+

lemma float_round_0: "float_round 0 = 0"
  by (simp add: float_round_def)

lemma floor_log2_bounds:
  fixes x :: real
  assumes "x \<noteq> 0"
  shows "2 powr of_int \<lfloor>log 2 \<bar>x\<bar>\<rfloor> \<le> \<bar>x\<bar>" and "\<bar>x\<bar> < 2 powr of_int (\<lfloor>log 2 \<bar>x\<bar>\<rfloor> + 1)"
proof -
  have pos: "0 < \<bar>x\<bar>" using assms by simp
  have "\<lfloor>log 2 \<bar>x\<bar>\<rfloor> = \<lfloor>log 2 \<bar>x\<bar>\<rfloor>" ..
  then have "2 powr of_int \<lfloor>log 2 \<bar>x\<bar>\<rfloor> \<le> \<bar>x\<bar> \<and> \<bar>x\<bar> < 2 powr of_int (\<lfloor>log 2 \<bar>x\<bar>\<rfloor> + 1)"
    using floor_log_eq_powr_iff [OF pos, of 2 "\<lfloor>log 2 \<bar>x\<bar>\<rfloor>"] by simp
  then show "2 powr of_int \<lfloor>log 2 \<bar>x\<bar>\<rfloor> \<le> \<bar>x\<bar>" and "\<bar>x\<bar> < 2 powr of_int (\<lfloor>log 2 \<bar>x\<bar>\<rfloor> + 1)"
    by simp_all
qed

text \<open>
  From \<open>1 / 4\<close> upwards (any bound in the normal range would do) the relative error of a
  rounding is at most \<open>2\<^sup>-\<^sup>5\<^sup>3\<close>.
\<close>

lemma float_round_error:
  assumes "1 / 4 \<le> \<bar>x\<bar>"
  shows "\<bar>float_round x - x\<bar> \<le> \<bar>x\<bar> / 2 ^ 53"
proof -
  define L where "L = \<lfloor>log 2 \<bar>x\<bar>\<rfloor>"
  have x0: "x \<noteq> 0" using assms by auto
  have pos: "0 < \<bar>x\<bar>" using x0 by simp
  have lo: "2 powr of_int L \<le> \<bar>x\<bar>" unfolding L_def by (rule floor_log2_bounds(1) [OF x0])
  have "(2::real) powr of_int (- 2) \<le> \<bar>x\<bar>" using assms by (simp add: powr_neg_numeral)
  moreover have "\<bar>x\<bar> < 2 powr of_int (L + 1)" unfolding L_def by (rule floor_log2_bounds(2) [OF x0])
  ultimately have "(2::real) powr of_int (- 2) < 2 powr of_int (L + 1)" by linarith
  then have "of_int (- 2) < (of_int (L + 1) :: real)" by (simp only: powr_less_cancel_iff) 
  then have L2: "- 2 \<le> L" by linarith
  define e where "e = L - 52"
  have e: "max (L - 52) (- 1074) = e" using L2 by (simp add: e_def)
  define P :: real where "P = 2 powr of_int e"
  have Ppos: "0 < P" by (simp add: P_def)
  have fr: "float_round x = of_int (round_half_even (x / P)) * P"
    using x0 e by (simp add: float_round_def L_def [symmetric] Let_def P_def)
  have "\<bar>of_int (round_half_even (x / P)) - x / P\<bar> \<le> 1 / 2"
    by (rule round_half_even_error)
  then have "\<bar>of_int (round_half_even (x / P)) - x / P\<bar> * P \<le> 1 / 2 * P"
    using Ppos by (intro mult_right_mono) simp_all
  moreover have "\<bar>of_int (round_half_even (x / P)) - x / P\<bar> * P
                 = \<bar>of_int (round_half_even (x / P)) * P - x\<bar>"
  proof -
    have "\<bar>of_int (round_half_even (x / P)) - x / P\<bar> * P
          = \<bar>(of_int (round_half_even (x / P)) - x / P) * P\<bar>"
      using Ppos by (simp add: abs_mult)
    also have "(of_int (round_half_even (x / P)) - x / P) * P
               = of_int (round_half_even (x / P)) * P - x"
      using Ppos by (simp add: algebra_simps)
    finally show ?thesis .
  qed
  ultimately have err: "\<bar>float_round x - x\<bar> \<le> P / 2" using fr by simp
  have "2 powr of_int L = 2 powr (of_int e + 52)" by (simp add: e_def)
  also have "\<dots> = P * 2 powr 52" by (simp only: powr_add P_def)
  also have "(2::real) powr 52 = 2 ^ 52" by (simp add: powr_numeral)
  finally have "P * 2 ^ 52 \<le> \<bar>x\<bar>" using lo by simp
  then have "P / 2 \<le> \<bar>x\<bar> / 2 ^ 53" by simp
  then show ?thesis using err by linarith
qed

text \<open>A number with a significand of at most 53 bits is a float: rounding leaves it alone.\<close>

lemma float_round_exact:
  assumes "\<bar>m\<bar> < 2 ^ 53" and "- 1074 \<le> k"
  shows "float_round (of_int m * 2 powr of_int k) = of_int m * 2 powr of_int k"
proof (cases "m = 0")
  case True
  then show ?thesis by (simp add: float_round_def)
next
  case False
  define x :: real where "x = of_int m * 2 powr of_int k"
  have x0: "x \<noteq> 0" using False by (simp add: x_def)
  define L where "L = \<lfloor>log 2 \<bar>x\<bar>\<rfloor>"
  define e where "e = max (L - 52) (- 1074)"
  have "(of_int \<bar>m\<bar> :: real) < of_int (2 ^ 53)"
    using assms(1) by (simp only: of_int_less_iff)
  then have "\<bar>of_int m :: real\<bar> < 2 ^ 53" by simp
  then have "\<bar>x\<bar> < 2 ^ 53 * 2 powr of_int k"
    by (simp add: x_def abs_mult)
  also have "(2::real) ^ 53 = 2 powr 53" by (simp add: powr_numeral)
  also have "2 powr 53 * 2 powr of_int k = (2::real) powr of_int (53 + k)"
    by (simp add: powr_add)
  finally have up: "\<bar>x\<bar> < 2 powr of_int (53 + k)" .
  have "2 powr of_int L \<le> \<bar>x\<bar>" unfolding L_def by (rule floor_log2_bounds(1) [OF x0])
  then have "(2::real) powr of_int L < 2 powr of_int (53 + k)" using up by linarith
  then have "(of_int L :: real) < of_int (53 + k)" by (simp only: powr_less_cancel_iff)
  then have "L - 52 \<le> k" by linarith
  then have ek: "e \<le> k" using assms(2) by (simp add: e_def)
  define j where "j = nat (k - e)"
  have kj: "k = e + int j" using ek by (simp add: j_def)
  have "(2::real) powr of_int k = 2 powr (of_int e + of_nat j)" by (simp add: kj)
  also have "\<dots> = 2 powr of_int e * 2 ^ j" by (simp add: powr_add powr_realpow)
  finally have pk: "(2::real) powr of_int k = 2 powr of_int e * 2 ^ j" .
  have q: "x / 2 powr of_int e = of_int (m * 2 ^ j)"
    by (simp add: x_def pk)
  have "float_round x = of_int (round_half_even (x / 2 powr of_int e)) * 2 powr of_int e"
    using x0 by (simp add: float_round_def Let_def e_def L_def)
  also have "\<dots> = of_int (m * 2 ^ j) * 2 powr of_int e"
    by (simp only: q round_half_even_of_int)
  also have "\<dots> = x" by (simp add: x_def pk)
  finally show ?thesis by (simp add: x_def)
qed

lemma float_round_of_int:
  assumes "\<bar>m\<bar> < 2 ^ 53"
  shows "float_round (of_int m) = of_int m"
  using float_round_exact [OF assms, of 0] by simp

text \<open>Rounding, evaluated: the binade of the number is all that has to be known.\<close>

lemma float_round_eval:
  assumes "2 powr of_int k \<le> \<bar>x\<bar>" and "\<bar>x\<bar> < 2 powr of_int (k + 1)"
  shows "float_round x =
           of_int (round_half_even (x / 2 powr of_int (max (k - 52) (- 1074))))
             * 2 powr of_int (max (k - 52) (- 1074))"
proof -
  have pos: "0 < \<bar>x\<bar>" using assms(1) by (smt (verit) powr_gt_zero)
  then have x0: "x \<noteq> 0" by simp
  have "\<lfloor>log 2 \<bar>x\<bar>\<rfloor> = k"
    using floor_log_eq_powr_iff [OF pos, of 2 k] assms by simp
  then show ?thesis using x0 by (simp add: float_round_def Let_def)
qed

lemma int_bound_real:
  fixes m :: int
  assumes "0 \<le> m" and "m \<le> 2 ^ 24"
  shows "\<bar>m\<bar> < 2 ^ 53" and "(of_int m :: real) \<le> 2 ^ 24" and "0 \<le> (of_int m :: real)"
proof -
  show "\<bar>m\<bar> < 2 ^ 53" using assms by simp
  have "(of_int m :: real) \<le> of_int (2 ^ 24)" using assms(2) by (simp only: of_int_le_iff)
  then show "(of_int m :: real) \<le> 2 ^ 24" by simp
  show "0 \<le> (of_int m :: real)" using assms(1) by simp
qed

text \<open>The scaled coordinate: a rounded product with a rounded quotient.\<close>

lemma scaled_error:
  fixes v n N :: int
  assumes "0 \<le> v" and "v \<le> n" and "0 < n" and "n \<le> N" and "N \<le> 2 ^ 24"
  defines "p \<equiv> float_round (float_round (of_int v) * scale_factor N n)"
  shows "\<bar>p - of_int v * (of_int N / of_int n)\<bar> \<le> 3 * of_int N / 2 ^ 53"
    and "p = 0 \<or> 1 / 4 \<le> p" and "p \<le> 2 ^ 25"
    and "1 / 2 \<le> scale_factor N n" and "scale_factor N n \<le> 2 ^ 25"
proof -
  define S :: real where "S = of_int N / of_int n"
  define s where "s = scale_factor N n"
  define u :: real where "u = 1 / 2 ^ 53"
  have u: "0 < u" "u \<le> 1 / 2" "u \<le> 1 / 4" by (simp_all add: u_def)
  have npos: "0 < (of_int n :: real)" using assms(3) by simp
  have nN: "(of_int n :: real) \<le> of_int N" using assms(4) by simp
  have "(of_int N :: real) \<le> 2 ^ 24"
    using int_bound_real(2) [of N] assms by linarith
  then have NB: "(of_int N :: real) \<le> 16777216" by simp
  have S1: "1 \<le> S" using npos nN by (simp add: S_def)
  have SN: "S \<le> of_int N"
  proof -
    have "1 \<le> (of_int n :: real)" using assms(3) by simp
    then have "of_int N / of_int n \<le> (of_int N :: real) / 1"
      using npos nN by (intro divide_left_mono) simp_all
    then show ?thesis by (simp add: S_def)
  qed
  have sdef: "s = float_round S" using assms(3) by (simp add: s_def scale_factor_def S_def)
  have "\<bar>float_round S - S\<bar> \<le> \<bar>S\<bar> / 2 ^ 53"
    by (rule float_round_error) (use S1 in simp)
  then have serr: "\<bar>s - S\<bar> \<le> S * u" using S1 by (simp add: sdef u_def)
  have s_lo: "1 / 2 \<le> s"
  proof -
    have "S * u \<le> S * (1 / 2)" using u S1 by (intro mult_left_mono) simp_all
    then show ?thesis using serr S1 by linarith
  qed
  have s_hi: "s \<le> 2 * S"
  proof -
    have "S * u \<le> S * 1" using u S1 by (intro mult_left_mono) simp_all
    then show ?thesis using serr by linarith
  qed
  show "1 / 2 \<le> scale_factor N n" using s_lo by (simp add: s_def)
  have "s \<le> 33554432" using s_hi SN NB by linarith
  then show "scale_factor N n \<le> 2 ^ 25" by (simp add: s_def)
  have vB: "\<bar>v\<bar> < 2 ^ 53" using assms by simp
  have fv: "float_round (of_int v) = of_int v" by (rule float_round_of_int [OF vB])
  have p: "p = float_round (of_int v * s)" by (simp add: p_def fv s_def)
  have vS: "of_int v * S \<le> of_int N"
  proof -
    have "of_int v * S \<le> of_int n * S"
      using assms(2) S1 by (intro mult_right_mono) simp_all
    also have "\<dots> = of_int N" using npos by (simp add: S_def)
    finally show ?thesis .
  qed
  show "\<bar>p - of_int v * (of_int N / of_int n)\<bar> \<le> 3 * of_int N / 2 ^ 53"
    and "p = 0 \<or> 1 / 4 \<le> p" and "p \<le> 2 ^ 25"
  proof -
    have main: "\<bar>p - of_int v * S\<bar> \<le> 3 * of_int N * u \<and> (p = 0 \<or> 1 / 4 \<le> p) \<and> p \<le> 2 ^ 25"
    proof (cases "v = 0")
      case True
      then have "p = 0" by (simp add: p float_round_0)
      then show ?thesis using True assms u by simp
    next
      case False
      then have v1: "1 \<le> (of_int v :: real)" using assms(1) by simp
      define z where "z = of_int v * s"
      have z_lo: "1 / 2 \<le> z"
      proof -
        have "1 * (1 / 2) \<le> of_int v * s"
          using v1 s_lo by (intro mult_mono) simp_all
        then show ?thesis by (simp add: z_def)
      qed
      have zerr: "\<bar>z - of_int v * S\<bar> \<le> of_int N * u"
      proof -
        have "\<bar>z - of_int v * S\<bar> = of_int v * \<bar>s - S\<bar>"
          using v1 by (simp add: z_def right_diff_distrib [symmetric] abs_mult)
        also have "\<dots> \<le> of_int v * (S * u)"
          using serr v1 by (intro mult_left_mono) simp_all
        also have "\<dots> = (of_int v * S) * u" by simp
        also have "\<dots> \<le> of_int N * u"
          using vS u by (intro mult_right_mono) simp_all
        finally show ?thesis .
      qed
      have Nu: "of_int N * u \<le> of_int N" 
      proof -
        have "of_int N * u \<le> of_int N * 1"
          using u npos nN by (intro mult_left_mono) simp_all
        then show ?thesis by simp
      qed
      have z_hi: "z \<le> 2 * of_int N" using zerr vS Nu by linarith
      have "\<bar>float_round z - z\<bar> \<le> \<bar>z\<bar> / 2 ^ 53"
        by (rule float_round_error) (use z_lo in simp)
      then have perr: "\<bar>p - z\<bar> \<le> z * u" using z_lo by (simp add: p z_def u_def)
      have zu: "z * u \<le> 2 * of_int N * u"
        using z_hi u by (intro mult_right_mono) simp_all
      have e1: "\<bar>p - of_int v * S\<bar> \<le> 3 * of_int N * u"
        using perr zerr zu by linarith
      have "z * u \<le> z * (1 / 2)" using u z_lo by (intro mult_left_mono) simp_all
      then have e2: "1 / 4 \<le> p" using perr z_lo by linarith
      have "3 * of_int N * u \<le> 3 * of_int N * (1 / 4)"
        using u npos nN by (intro mult_left_mono) simp_all
      then have "p \<le> 2 * of_int N" using e1 vS npos nN by linarith
      then have "p \<le> 33554432" using NB by linarith
      then have e3: "p \<le> 2 ^ 25" by simp
      show ?thesis using e1 e2 e3 by simp
    qed
    show "\<bar>p - of_int v * (of_int N / of_int n)\<bar> \<le> 3 * of_int N / 2 ^ 53"
      using main by (simp add: S_def u_def)
    show "p = 0 \<or> 1 / 4 \<le> p" using main by simp
    show "p \<le> 2 ^ 25" using main by simp
  qed
qed


text \<open>The shifted coordinate: a rounded sum with the height of the status bar.\<close>

lemma shifted_error:
  fixes b :: int and p :: real
  assumes "p = 0 \<or> 1 / 4 \<le> p" and "p \<le> 2 ^ 25" and "0 \<le> b" and "b \<le> 2 ^ 24"
  defines "q \<equiv> float_round (p + float_round (of_int b))"
  shows "\<bar>q - (p + of_int b)\<bar> \<le> 2 ^ 26 / 2 ^ 53" and "0 \<le> q" and "q \<le> 2 ^ 27"
proof -
  have bB: "\<bar>b\<bar> < 2 ^ 53" using assms by simp
  have fb: "float_round (of_int b) = of_int b" by (rule float_round_of_int [OF bB])
  have q: "q = float_round (p + of_int b)" by (simp add: q_def fb)
  have "(of_int b :: real) \<le> 2 ^ 24" using int_bound_real(2) [of b] assms by linarith
  then have b_hi: "(of_int b :: real) \<le> 16777216" by simp
  have b_lo: "0 \<le> (of_int b :: real)" using assms(3) by simp
  have p_hi: "p \<le> 33554432" using assms(2) by simp
  have main: "\<bar>q - (p + of_int b)\<bar> \<le> 67108864 / 2 ^ 53 \<and> 0 \<le> q \<and> q \<le> 134217728"
  proof (cases "p + of_int b = 0")
    case True
    then show ?thesis by (simp add: q float_round_0)
  next
    case False
    have "(p = 0 \<and> 1 \<le> (of_int b :: real)) \<or> 1 / 4 \<le> p"
    proof (cases "p = 0")
      case True
      then have "b \<noteq> 0" using False by auto
      then have "1 \<le> b" using assms(3) by linarith
      then have "1 \<le> (of_int b :: real)" by simp
      then show ?thesis using True by simp
    next
      case False
      then show ?thesis using assms(1) by simp
    qed
    then have lo: "1 / 4 \<le> p + of_int b" using b_lo by linarith
    define E where "E = (p + of_int b) / 2 ^ 53"
    have "\<bar>float_round (p + of_int b) - (p + of_int b)\<bar> \<le> \<bar>p + of_int b\<bar> / 2 ^ 53"
      by (rule float_round_error) (use lo in simp)
    then have err: "\<bar>q - (p + of_int b)\<bar> \<le> E"
      using lo by (simp add: q E_def)
    have "(p + of_int b) / 2 ^ 53 \<le> 67108864 / 2 ^ 53"
      using p_hi b_hi by (intro divide_right_mono) simp_all
    then have E1: "E \<le> 67108864 / 2 ^ 53" by (simp add: E_def)
    have e1: "\<bar>q - (p + of_int b)\<bar> \<le> 67108864 / 2 ^ 53" using err E1 by linarith
    have "(p + of_int b) / 2 ^ 53 \<le> (p + of_int b) / 2"
      using lo by (intro divide_left_mono) simp_all
    then have h: "E \<le> (p + of_int b) / 2" by (simp add: E_def)
    have err2: "p + of_int b - E \<le> q" "q \<le> p + of_int b + E"
      using err by (simp_all add: abs_le_iff)
    have e2: "0 \<le> q" using h err2 lo by simp
    have e3: "q \<le> 134217728" using h err2 lo p_hi b_hi by simp
    show ?thesis using e1 e2 e3 by simp
  qed
  show "\<bar>q - (p + of_int b)\<bar> \<le> 2 ^ 26 / 2 ^ 53" using main by simp
  show "0 \<le> q" using main by simp
  show "q \<le> 2 ^ 27" using main by simp
qed

text \<open>
  Truncation of a number that is close to \<open>v * N / n + b\<close>: scaled back by \<open>n / N\<close>, the
  result lies between \<open>v - n / N\<close> and \<open>v\<close>.
\<close>

lemma truncation_scaled_back:
  fixes v n N b :: int and z eta :: real
  assumes "0 \<le> z" and "0 < n" and "n \<le> N"
    and "\<bar>z - (of_int v * (of_int N / of_int n) + of_int b)\<bar> \<le> eta"
    and "eta * of_int n < 1"
  shows "\<bar>of_int (py_int z - b) / (of_int N / of_int n) - of_int v\<bar> \<le> (1::real)"
proof -
  define d where "d = py_int z"
  have d: "d = \<lfloor>z\<rfloor>" using assms(1) by (simp add: d_def py_int_def)
  have npos: "0 < (of_int n :: real)" using assms(2) by simp
  have Npos: "0 < (of_int N :: real)" using assms(2,3) by simp
  have dz: "of_int d \<le> z" "z < of_int d + 1" unfolding d by linarith+
  define T :: real where "T = of_int v * (of_int N / of_int n)"
  have Tn: "T * of_int n = of_int (v * N)" using npos by (simp add: T_def)
  have zT: "z - (T + of_int b) \<le> eta" "(T + of_int b) - z \<le> eta"
    using assms(4) by (simp_all add: T_def abs_le_iff)
  have "of_int (d - b) \<le> T + eta" using dz zT by simp
  then have "of_int (d - b) * of_int n \<le> (T + eta) * of_int n"
    using npos by (intro mult_right_mono) simp_all
  also have "\<dots> = of_int (v * N) + eta * of_int n" by (simp add: distrib_right Tn)
  finally have "of_int ((d - b) * n) < (of_int (v * N + 1) :: real)"
    using assms(5) by simp
  then have "(d - b) * n < v * N + 1" by (simp only: of_int_less_iff)
  then have hi: "(d - b) * n \<le> v * N" by simp
  have "T - eta - 1 < of_int (d - b)" using dz zT by simp
  then have "(T - eta - 1) * of_int n < of_int (d - b) * of_int n"
    using npos by (intro mult_strict_right_mono) simp_all
  moreover have "(T - eta - 1) * of_int n = of_int (v * N) - eta * of_int n - of_int n"
    by (simp add: left_diff_distrib Tn)
  ultimately have "(of_int (v * N - n - 1) :: real) < of_int ((d - b) * n)"
    using assms(5) by simp
  then have "v * N - n - 1 < (d - b) * n" by (simp only: of_int_less_iff)
  then have lo: "v * N - n \<le> (d - b) * n" by simp
  have eq: "of_int (d - b) / (of_int N / of_int n) - of_int v
            = (of_int ((d - b) * n - v * N) :: real) / of_int N"
    using npos Npos by (simp add: field_simps)
  have "(d - b) * n - v * N \<le> 0" using hi by simp
  then have "(of_int ((d - b) * n - v * N) :: real) \<le> of_int 0"
    by (simp only: of_int_le_iff)
  then have r_hi: "(of_int ((d - b) * n - v * N) :: real) / of_int N \<le> 0"
    using Npos by (simp add: divide_le_0_iff)
  have "- N \<le> (d - b) * n - v * N" using lo assms(3) by simp
  then have "(of_int (- N) :: real) \<le> of_int ((d - b) * n - v * N)"
    by (simp only: of_int_le_iff)
  then have "(of_int (- N) :: real) / of_int N \<le> of_int ((d - b) * n - v * N) / of_int N"
    using Npos by (intro divide_right_mono) simp_all
  then have r_lo: "- 1 \<le> (of_int ((d - b) * n - v * N) :: real) / of_int N"
    using Npos by simp
  show ?thesis unfolding d_def [symmetric] eq using r_lo r_hi by (simp add: abs_le_iff)
qed


lemma finite_float_bound: "0 \<le> r \<Longrightarrow> r \<le> 2 ^ 27 \<Longrightarrow> finite_float r"
proof -
  assume a: "0 \<le> r" "r \<le> 2 ^ 27"
  have "(2::real) ^ 27 < 2 ^ 1024" by (rule power_strict_increasing) simp_all
  then show ?thesis using a by (simp only: finite_float_def)
qed

lemma rounding_small:
  fixes N n :: int
  assumes "0 < n" and "n \<le> 2 ^ 24" and "0 \<le> N" and "N \<le> 2 ^ 24"
  shows "(7 * of_int N / 2 ^ 53) * of_int n < (1::real)"
proof -
  have "(of_int N :: real) * of_int n \<le> 2 ^ 24 * 2 ^ 24"
    using int_bound_real [of N] int_bound_real [of n] assms
    by (intro mult_mono) simp_all
  then have "(of_int N :: real) * of_int n \<le> 2 ^ 48" by simp
  then have "7 * ((of_int N :: real) * of_int n) / 2 ^ 53 \<le> 7 * 2 ^ 48 / 2 ^ 53"
    by (intro divide_right_mono mult_left_mono) simp_all
  also have "\<dots> < (1::real)" by simp
  finally show ?thesis by (simp add: mult.assoc)
qed

text \<open>Rounding on numbers that are given: dyadic fractions, and a number in a known binade.\<close>

lemma float_round_dyadic:
  assumes "\<bar>m\<bar> < 2 ^ 53" and "n \<le> 1074"
  shows "float_round (of_int m / 2 ^ n) = of_int m / 2 ^ n"
proof -
  have "(2::real) powr of_int (- int n) = 1 / 2 ^ n"
    by (simp add: powr_minus_divide powr_realpow)
  then show ?thesis
    using float_round_exact [OF assms(1), of "- int n"] assms(2) by simp
qed

lemma float_round_binade:
  fixes j :: nat
  assumes "2 ^ j \<le> \<bar>x\<bar>" and "\<bar>x\<bar> < 2 ^ (j + 1)" and "j \<le> 52"
  shows "float_round x = of_int (round_half_even (x * 2 ^ (52 - j))) / 2 ^ (52 - j)"
proof -
  have p1: "(2::real) powr of_int (int j) = 2 ^ j" by (simp add: powr_realpow)
  have p2: "(2::real) powr of_int (int j + 1) = 2 ^ (j + 1)"
    using powr_realpow [of 2 "j + 1"] by (simp add: add.commute)
  have m: "max (int j - 52) (- 1074) = - int (52 - j)" using assms(3) by simp
  have p3: "(2::real) powr of_int (- int (52 - j)) = 1 / 2 ^ (52 - j)"
    by (simp add: powr_minus_divide powr_realpow)
  show ?thesis
    using float_round_eval [of "int j" x] assms(1,2)
    unfolding p1 p2 m p3 by simp
qed

lemma float_round_1: "float_round 1 = 1"
  using float_round_of_int [of 1] by simp

lemma float_round_numeral:
  "(numeral n :: int) < 2 ^ 53 \<Longrightarrow> float_round (numeral n) = numeral n"
  using float_round_of_int [of "numeral n"] by simp

text \<open>
  The quotient \<open>2400 / 2340\<close> is no double; rounded, it lies below \<open>40 / 39\<close>, and
  \<open>195\<close> times it, plus 50, stays below 250: the point (540, 195) of a 1080 by 2340 image
  goes to (540, 249), where exact arithmetic gives (540, 250).
\<close>

lemma scale_y_2340: "scale_factor 2400 2340 = 4619076540892816 / 2 ^ 52"
proof -
  have "float_round (2400 / 2340) = of_int (round_half_even (2400 / 2340 * 2 ^ (52 - 0))) / 2 ^ (52 - 0)"
    by (rule float_round_binade) simp_all
  also have "round_half_even (2400 / 2340 * 2 ^ (52 - 0)) = 4619076540892816"
    by (simp add: round_half_even_def Let_def)
  finally show ?thesis by (simp add: scale_factor_def)
qed

lemma scaled_y_195:
  "float_round (195 * (4619076540892816 / 2 ^ 52)) = 7036874417766399 / 2 ^ 45"
proof -
  have "float_round (195 * (4619076540892816 / 2 ^ 52))
        = of_int (round_half_even (195 * (4619076540892816 / 2 ^ 52) * 2 ^ (52 - 7))) / 2 ^ (52 - 7)"
    by (rule float_round_binade) simp_all
  also have "round_half_even (195 * (4619076540892816 / 2 ^ 52) * 2 ^ (52 - 7)) = 7036874417766399"
    by (simp add: round_half_even_def Let_def)
  finally show ?thesis by simp
qed

lemma shifted_y_195:
  "float_round (7036874417766399 / 2 ^ 45 + 50) = 8796093022207999 / 2 ^ 45"
proof -
  have "(7036874417766399 / 2 ^ 45 + 50 :: real) = of_int 8796093022207999 / 2 ^ 45" by simp
  then show ?thesis using float_round_dyadic [of 8796093022207999 45] by simp
qed

lemma map_vision_540_195:
  "map_vision_to_device_coords default_dims 540 195 1080 2340 = Some (540, 249)"
proof -
  have sx: "scale_factor 1080 1080 = 1" by (simp add: scale_factor_def float_round_1)
  have f: "float_round 540 = 540" "float_round 195 = 195" "float_round 50 = 50"
    by (simp_all add: float_round_numeral)
  have fin: "finite_float 1" "finite_float 540" "finite_float 195" "finite_float 50"
    "finite_float (4619076540892816 / 2 ^ 52)" "finite_float (7036874417766399 / 2 ^ 45)"
    "finite_float (8796093022207999 / 2 ^ 45)"
    by (simp_all add: finite_float_def)
  have t: "py_int 540 = 540" "py_int (8796093022207999 / 2 ^ 45) = 249"
    by (simp_all add: py_int_def)
  show ?thesis
    unfolding map_vision_to_device_coords_def default_dims_def Let_def
    by (simp only: device_dims.simps sx scale_y_2340 of_int_numeral f mult_1_right
          scaled_y_195 shifted_y_195 fin list.pred_inject(1,2) simp_thms if_True t)
qed

lemma map_vision_2_2:
  "map_vision_to_device_coords default_dims 2 2 4320 9600 = Some (0, 50)"
proof -
  have q: "float_round (1 / 4) = 1 / 4" using float_round_dyadic [of 1 2] by simp
  have h: "float_round (1 / 2) = 1 / 2" using float_round_dyadic [of 1 1] by simp
  have o: "float_round (101 / 2) = 101 / 2" using float_round_dyadic [of 101 1] by simp
  have sx: "scale_factor 1080 4320 = 1 / 4" "scale_factor 2400 9600 = 1 / 4"
    by (simp_all add: scale_factor_def q)
  show ?thesis
    unfolding map_vision_to_device_coords_def default_dims_def Let_def
    by (simp add: sx float_round_numeral h o finite_float_def py_int_def)
qed

text \<open>
  C1, as stated, fails. On a 1080 by 2400 device with a status bar of 50 and an image of
  4320 by 9600 (both scale factors are 1/4, a double), the image point (2, 2) goes to
  the device point (0, 50); subtracting the status bar and dividing by the scale
  factors gives (0, 0), which is 2 pixels from the point in each axis.
\<close>

theorem round_trip_counterexample:
  "map_vision_to_device_coords default_dims 2 2 4320 9600 = Some (0, 50)
   \<and> \<bar>of_int 0 / (of_int 1080 / of_int 4320) - of_int 2\<bar> > (1::real)
   \<and> \<bar>of_int (50 - 50) / (of_int 2400 / of_int 9600) - of_int 2\<bar> > (1::real)"
  using map_vision_2_2 by simp

text \<open>
  C1, amended: when the image is no larger than the device in either axis (both scale
  factors are at least 1), and the width and the height of the device and the height of
  the status bar, which is not negative, are at most \<open>2\<^sup>2\<^sup>4\<close> pixels, the transform of the
  code, which truncates where the claim rounds and computes in doubles, returns a point,
  and the inverse scaling (subtract the status bar height from the device y, divide by
  the ratios of the sizes) recovers every point within the image bounds to within 1
  pixel in each axis.
\<close>

theorem round_trip_when_upscaling:
  assumes "0 \<le> x_vision" and "x_vision \<le> screenshot_width"
    and "0 \<le> y_vision" and "y_vision \<le> screenshot_height"
    and "0 < screenshot_width" and "screenshot_width \<le> SCREEN_WIDTH d"
    and "SCREEN_WIDTH d \<le> 2 ^ 24"
    and "0 < screenshot_height" and "screenshot_height \<le> SCREEN_HEIGHT d"
    and "SCREEN_HEIGHT d \<le> 2 ^ 24"
    and "0 \<le> STATUS_BAR_HEIGHT d" and "STATUS_BAR_HEIGHT d \<le> 2 ^ 24"
  shows "\<exists>device_x device_y.
           map_vision_to_device_coords d x_vision y_vision screenshot_width screenshot_height
             = Some (device_x, device_y)
         \<and> \<bar>of_int device_x / (of_int (SCREEN_WIDTH d) / of_int screenshot_width)
              - of_int x_vision\<bar> \<le> (1::real)
         \<and> \<bar>of_int (device_y - STATUS_BAR_HEIGHT d)
                / (of_int (SCREEN_HEIGHT d) / of_int screenshot_height)
              - of_int y_vision\<bar> \<le> (1::real)"
proof -
  let ?W = "SCREEN_WIDTH d" and ?H = "SCREEN_HEIGHT d" and ?b = "STATUS_BAR_HEIGHT d"
  define sx where "sx = scale_factor ?W screenshot_width"
  define sy where "sy = scale_factor ?H screenshot_height"
  define px where "px = float_round (float_round (of_int x_vision) * sx)"
  define py where "py = float_round (float_round (of_int y_vision) * sy)"
  define q where "q = float_round (py + float_round (of_int ?b))"
  note ex = scaled_error [OF assms(1,2,5,6,7), folded sx_def, folded px_def]
  note ey = scaled_error [OF assms(3,4,8,9,10), folded sy_def, folded py_def]
  note eq = shifted_error [OF ey(2,3) assms(11,12), folded q_def]
  have Wpos: "0 \<le> ?W" "0 \<le> ?H" using assms by simp_all
  have wB: "screenshot_width \<le> 2 ^ 24" "screenshot_height \<le> 2 ^ 24" using assms by simp_all
  have fx: "float_round (of_int x_vision) = of_int x_vision"
    using assms by (intro float_round_of_int) simp
  have fy: "float_round (of_int y_vision) = of_int y_vision"
    using assms by (intro float_round_of_int) simp
  have fb: "float_round (of_int ?b) = of_int ?b"
    using assms by (intro float_round_of_int) simp
  have px0: "0 \<le> px" using ex(2) by auto
  have py0: "0 \<le> py" using ey(2) by auto
  have fin: "list_all finite_float
               [sx, sy, float_round (of_int x_vision), px, float_round (of_int y_vision), py,
                float_round (of_int ?b), q]"
  proof -
    have "finite_float sx" using ex(4,5) by (intro finite_float_bound) simp_all
    moreover have "finite_float sy" using ey(4,5) by (intro finite_float_bound) simp_all
    moreover have "finite_float px" using px0 ex(3) by (intro finite_float_bound) simp_all
    moreover have "finite_float py" using py0 ey(3) by (intro finite_float_bound) simp_all
    moreover have "finite_float q" using eq(2,3) by (intro finite_float_bound) simp_all
    moreover have "finite_float (of_int x_vision)"
      using int_bound_real [of x_vision] assms wB by (intro finite_float_bound) simp_all
    moreover have "finite_float (of_int y_vision)"
      using int_bound_real [of y_vision] assms wB by (intro finite_float_bound) simp_all
    moreover have "finite_float (of_int ?b)"
      using int_bound_real [of ?b] assms by (intro finite_float_bound) simp_all
    ultimately show ?thesis by (simp add: fx fy fb)
  qed
  have res: "map_vision_to_device_coords d x_vision y_vision screenshot_width screenshot_height
             = Some (py_int px, py_int q)"
    using fin unfolding map_vision_to_device_coords_def Let_def sx_def sy_def px_def py_def q_def
    by (simp only: if_True)
  have bx: "\<bar>of_int (py_int px - 0) / (of_int ?W / of_int screenshot_width)
              - of_int x_vision\<bar> \<le> (1::real)"
  proof (rule truncation_scaled_back [OF px0 assms(5,6)])
    show "\<bar>px - (of_int x_vision * (of_int ?W / of_int screenshot_width) + of_int 0)\<bar>
            \<le> 3 * of_int ?W / 2 ^ 53"
      using ex(1) by simp
    have "3 * of_int ?W / 2 ^ 53 * of_int screenshot_width
            \<le> 7 * (of_int ?W :: real) / 2 ^ 53 * of_int screenshot_width"
      using Wpos assms(5) by (intro mult_right_mono divide_right_mono) simp_all
    then show "3 * of_int ?W / 2 ^ 53 * of_int screenshot_width < (1::real)"
      using rounding_small [OF assms(5) wB(1) Wpos(1) assms(7)] by linarith
  qed
  have by': "\<bar>of_int (py_int q - ?b) / (of_int ?H / of_int screenshot_height)
              - of_int y_vision\<bar> \<le> (1::real)"
  proof (rule truncation_scaled_back [OF eq(2) assms(8,9)])
    define T :: real where "T = of_int y_vision * (of_int ?H / of_int screenshot_height)"
    define e1 :: real where "e1 = 3 * of_int ?H / 2 ^ 53"
    define e2 :: real where "e2 = 2 ^ 26 / 2 ^ 53"
    have a: "\<bar>py - T\<bar> \<le> e1" using ey(1) by (simp only: T_def e1_def)
    have b: "\<bar>q - (py + of_int ?b)\<bar> \<le> e2" using eq(1) by (simp only: e2_def)
    have "\<bar>q - (T + of_int ?b)\<bar> \<le> e1 + e2"
      using a b by linarith
    then have c: "\<bar>q - (T + of_int ?b)\<bar> \<le> 3 * of_int ?H / 2 ^ 53 + 2 ^ 26 / 2 ^ 53"
      by (simp only: e1_def e2_def)
    show "\<bar>q - (of_int y_vision * (of_int ?H / of_int screenshot_height) + of_int ?b)\<bar>
            \<le> 3 * of_int ?H / 2 ^ 53 + 2 ^ 26 / 2 ^ 53"
      using c by (simp add: T_def)
    have h1: "(3 * of_int ?H / 2 ^ 53) * of_int screenshot_height
                \<le> (3 * 2 ^ 24 / 2 ^ 53) * (2 ^ 24 :: real)"
      using int_bound_real [of ?H] int_bound_real [of screenshot_height] assms Wpos wB
      by (intro mult_mono divide_right_mono) simp_all
    have h2: "(2 ^ 26 / 2 ^ 53) * of_int screenshot_height \<le> (2 ^ 26 / 2 ^ 53) * (2 ^ 24 :: real)"
      using int_bound_real [of screenshot_height] assms wB
      by (intro mult_left_mono) simp_all
    have "(3 * of_int ?H / 2 ^ 53 + 2 ^ 26 / 2 ^ 53) * of_int screenshot_height
          = (3 * of_int ?H / 2 ^ 53) * of_int screenshot_height
            + (2 ^ 26 / 2 ^ 53) * of_int screenshot_height"
      by (rule distrib_right)
    also have "\<dots> \<le> (3 * 2 ^ 24 / 2 ^ 53) * (2 ^ 24 :: real) + (2 ^ 26 / 2 ^ 53) * (2 ^ 24 :: real)"
      using h1 h2 by (rule add_mono)
    also have "\<dots> < (1::real)" by simp
    finally show "(3 * of_int ?H / 2 ^ 53 + 2 ^ 26 / 2 ^ 53) * of_int screenshot_height < (1::real)" .
  qed
  show ?thesis using res bx by' by simp
qed

theorem round_trip_when_upscaling_witness:
  "map_vision_to_device_coords default_dims 540 195 1080 2340 = Some (540, 249)
   \<and> \<bar>of_int 540 / (of_int 1080 / of_int 1080) - of_int 540\<bar> \<le> (1::real)
   \<and> \<bar>of_int (249 - 50) / (of_int 2400 / of_int 2340) - of_int 195\<bar> \<le> (1::real)"
  using round_trip_when_upscaling [of 540 1080 195 2340 default_dims] map_vision_540_195
  by (simp add: default_dims_def)

text \<open>
  Some bound on the sizes is needed: on a square screen of \<open>2\<^sup>5\<^sup>5 + 3\<close> pixels with an image
  of the same size, both scale factors are 1 and the last column, \<open>2\<^sup>5\<^sup>5 + 3\<close>, goes to
  \<open>2\<^sup>5\<^sup>5\<close>, 3 pixels away.
\<close>

lemma float_round_binade_large:
  fixes j :: nat
  assumes "2 ^ j \<le> \<bar>x\<bar>" and "\<bar>x\<bar> < 2 ^ (j + 1)" and "52 \<le> j"
  shows "float_round x = of_int (round_half_even (x / 2 ^ (j - 52))) * 2 ^ (j - 52)"
proof -
  have p1: "(2::real) powr of_int (int j) = 2 ^ j" by (simp add: powr_realpow)
  have p2: "(2::real) powr of_int (int j + 1) = 2 ^ (j + 1)"
    using powr_realpow [of 2 "j + 1"] by (simp add: add.commute)
  have m: "max (int j - 52) (- 1074) = int (j - 52)" using assms(3) by simp
  have p3: "(2::real) powr of_int (int (j - 52)) = 2 ^ (j - 52)"
    by (simp add: powr_realpow)
  show ?thesis
    using float_round_eval [of "int j" x] assms(1,2)
    unfolding p1 p2 m p3 by simp
qed

lemma round_trip_huge_screen:
  "map_vision_to_device_coords huge_dims 36028797018963971 0 36028797018963971 36028797018963971
     = Some (36028797018963968, 50)"
proof -
  have sx: "scale_factor 36028797018963971 36028797018963971 = 1"
    by (simp add: scale_factor_def float_round_1)
  have "float_round 36028797018963971
        = of_int (round_half_even (36028797018963971 / 2 ^ (55 - 52))) * 2 ^ (55 - 52)"
    by (rule float_round_binade_large) simp_all
  also have "round_half_even (36028797018963971 / 2 ^ (55 - 52)) = 4503599627370496"
    by (simp add: round_half_even_def Let_def)
  finally have big: "float_round 36028797018963971 = 36028797018963968" by simp
  have big2: "float_round 36028797018963968 = 36028797018963968"
    using float_round_exact [of 4503599627370496 3] by (simp add: powr_numeral)
  have f: "float_round 0 = 0" "float_round 50 = 50"
    by (simp_all add: float_round_0 float_round_numeral)
  have fin: "finite_float 1" "finite_float 0" "finite_float 50" "finite_float 36028797018963968"
    by (simp_all add: finite_float_def)
  have t: "py_int 36028797018963968 = 36028797018963968" "py_int 50 = 50"
    by (simp_all add: py_int_def)
  show ?thesis
    unfolding map_vision_to_device_coords_def huge_dims_def Let_def
    by (simp only: device_dims.simps sx of_int_numeral of_int_0 big big2 f mult_1_right
          mult_zero_left add_0_left fin list.pred_inject(1,2) simp_thms if_True t)
qed

text \<open>
  C2, as stated, fails: \<open>tap\<close> clamps. The point (2000, 500) lies outside the 1080 by 2400
  screen; \<open>tap\<close> sends a tap at the clamped point (1080, 500) and returns \<open>True\<close>.
\<close>

theorem tap_clamps_counterexample:
  "tap default_dims (\<lambda>c. Returns []) 2000 500 (1 / 10) = (True, [InputTap 1080 500])"
  by (simp add: tap_def default_dims_def)

text \<open>
  C2, amended: on a screen of positive width and height, \<open>tap\<close> sends no command and returns
  \<open>False\<close> exactly for the points with \<open>x \<le> 0\<close> or \<open>y \<le> 0\<close>; for every other point, also one
  beyond the right or the bottom edge, it sends one tap, at the point clamped into the
  screen.
\<close>

theorem tap_refuses_only_nonpositive:
  assumes "0 < SCREEN_WIDTH d" and "0 < SCREEN_HEIGHT d"
  shows "snd (tap d shell x y delay) =
           (if x \<le> 0 \<or> y \<le> 0 then []
            else [InputTap (min x (SCREEN_WIDTH d)) (min y (SCREEN_HEIGHT d))])
         \<and> (if x \<le> 0 \<or> y \<le> 0 then fst (tap d shell x y delay) = False else True)"
  using assms
  by (auto simp: tap_def Let_def max_def min_def split: shell_outcome.splits)

theorem tap_refuses_only_nonpositive_witness:
  "snd (tap default_dims (\<lambda>c. Returns []) 2000 500 (1 / 10)) = [InputTap 1080 500]
   \<and> snd (tap default_dims (\<lambda>c. Returns []) (-5) 500 (1 / 10)) = []
   \<and> fst (tap default_dims (\<lambda>c. Returns []) (-5) 500 (1 / 10)) = False"
  using tap_refuses_only_nonpositive [of default_dims "\<lambda>c. Returns []" 2000 500 "1 / 10"]
    tap_refuses_only_nonpositive [of default_dims "\<lambda>c. Returns []" "-5" 500 "1 / 10"]
  by (simp add: default_dims_def)

section \<open>Properties of the coordinate validation\<close>

text \<open>
  C5: a point whose \<open>y\<close> is below the status bar margin (\<open>STATUS_BAR_MAX\<close>, 100) is invalid,
  whatever its \<open>x\<close> and whatever the screen.
\<close>

theorem validate_rejects_status_bar:
  "y < STATUS_BAR_MAX \<Longrightarrow> \<not> validate_coordinates d x y"
  by (simp add: validate_coordinates_def)

theorem validate_rejects_status_bar_witness:
  "(99::int) < STATUS_BAR_MAX \<and> \<not> validate_coordinates default_dims 500 99"
  using validate_rejects_status_bar [of 99 default_dims 500]
  by (simp add: STATUS_BAR_MAX_def)

section \<open>Properties of retry with backoff\<close>

lemma double_shift:
  fixes d :: real
  assumes "Suc a \<le> x"
  shows "(d * 2) * 2 ^ (x - Suc a) = d * 2 ^ (x - a)"
proof -
  have "x - a = Suc (x - Suc a)" using assms by linarith
  then show ?thesis by simp
qed

lemma retry_loop_all_fail:
  assumes "0 \<le> d" and "\<forall>k. a \<le> k \<and> k < n \<longrightarrow> \<not> succeeds truthy (action k)"
  shows "retry_loop truthy action (int n) [a..<n] d slept calls =
           \<lparr>r_end = Exhausted,
            r_slept = slept @ map (\<lambda>i. d * 2 ^ (i - a)) [a..<n - 1],
            r_calls = calls + (n - a)\<rparr>"
  using assms
proof (induction "n - a" arbitrary: a d slept calls)
  case 0
  then show ?case by simp
next
  case (Suc m)
  then have an: "a < n" by linarith
  then have up: "[a..<n] = a # [Suc a..<n]" by (simp add: upt_conv_Cons)
  have nf: "\<not> succeeds truthy (action a)" using Suc.prems an by simp
  have m: "m = n - Suc a" using Suc.hyps by linarith
  have rest: "\<forall>k. Suc a \<le> k \<and> k < n \<longrightarrow> \<not> succeeds truthy (action k)"
    using Suc.prems by simp
  show ?case
  proof (cases "Suc a < n")
    case True
    have d2: "0 \<le> d * 2" using Suc.prems by simp
    have ih: "retry_loop truthy action (int n) [Suc a..<n] (d * 2) (slept @ [d]) (Suc calls) =
           \<lparr>r_end = Exhausted,
            r_slept = (slept @ [d]) @ map (\<lambda>i. (d * 2) * 2 ^ (i - Suc a)) [Suc a..<n - 1],
            r_calls = Suc calls + (n - Suc a)\<rparr>"
      using Suc.hyps(1) [OF m d2 rest] .
    have up2: "[a..<n - 1] = a # [Suc a..<n - 1]" using True by (simp add: upt_conv_Cons)
    have mp: "map (\<lambda>i. (d * 2) * 2 ^ (i - Suc a)) [Suc a..<n - 1]
                = map (\<lambda>i. d * 2 ^ (i - a)) [Suc a..<n - 1]"
      by (rule map_cong) (simp_all add: double_shift)
    have step: "retry_loop truthy action (int n) (a # [Suc a..<n]) d slept calls =
                retry_loop truthy action (int n) [Suc a..<n] (d * 2) (slept @ [d]) (Suc calls)"
      using nf True Suc.prems(1) by (simp add: succeeds_def split: outcome.splits)
    have s1: "(slept @ [d]) @ map (\<lambda>i. (d * 2) * 2 ^ (i - Suc a)) [Suc a..<n - 1]
                = slept @ map (\<lambda>i. d * 2 ^ (i - a)) [a..<n - 1]"
      unfolding mp up2 by simp
    have s2: "Suc calls + (n - Suc a) = calls + (n - a)" using an by linarith
    show ?thesis unfolding up step ih s1 s2 ..
  next
    case False
    then have na: "n = Suc a" using an by linarith
    show ?thesis
      using nf by (simp add: na succeeds_def split: outcome.splits)
  qed
qed

lemma retry_loop_first_success:
  assumes "0 \<le> d" and "a \<le> k" and "k < n" and "action k = Returned r" and "truthy r"
    and "\<forall>j. a \<le> j \<and> j < k \<longrightarrow> \<not> succeeds truthy (action j)"
  shows "retry_loop truthy action (int n) [a..<n] d slept calls =
           \<lparr>r_end = Result r,
            r_slept = slept @ map (\<lambda>i. d * 2 ^ (i - a)) [a..<k],
            r_calls = calls + (k - a) + 1\<rparr>"
  using assms
proof (induction "k - a" arbitrary: a d slept calls)
  case 0
  then have ka: "k = a" by simp
  have up: "[a..<n] = a # [Suc a..<n]" using 0 by (simp add: upt_conv_Cons)
  show ?case using 0 by (simp add: up ka)
next
  case (Suc m)
  then have ak: "a < k" by linarith
  then have an: "a < n" and san: "Suc a < n" using Suc.prems by linarith+
  have up: "[a..<n] = a # [Suc a..<n]" using an by (simp add: upt_conv_Cons)
  have nf: "\<not> succeeds truthy (action a)" using Suc.prems ak by simp
  have m: "m = k - Suc a" using Suc.hyps by linarith
  have d2: "0 \<le> d * 2" using Suc.prems by simp
  have rest: "\<forall>j. Suc a \<le> j \<and> j < k \<longrightarrow> \<not> succeeds truthy (action j)"
    using Suc.prems by simp
  have sk: "Suc a \<le> k" using ak by simp
  have ih: "retry_loop truthy action (int n) [Suc a..<n] (d * 2) (slept @ [d]) (Suc calls) =
           \<lparr>r_end = Result r,
            r_slept = (slept @ [d]) @ map (\<lambda>i. (d * 2) * 2 ^ (i - Suc a)) [Suc a..<k],
            r_calls = Suc calls + (k - Suc a) + 1\<rparr>"
    using Suc.hyps(1) [OF m d2 sk Suc.prems(3) Suc.prems(4) Suc.prems(5) rest] .
  have up2: "[a..<k] = a # [Suc a..<k]" using ak by (simp add: upt_conv_Cons)
  have mp: "map (\<lambda>i. (d * 2) * 2 ^ (i - Suc a)) [Suc a..<k]
              = map (\<lambda>i. d * 2 ^ (i - a)) [Suc a..<k]"
    by (rule map_cong) (simp_all add: double_shift)
  have step: "retry_loop truthy action (int n) (a # [Suc a..<n]) d slept calls =
              retry_loop truthy action (int n) [Suc a..<n] (d * 2) (slept @ [d]) (Suc calls)"
    using nf san Suc.prems(1) by (simp add: succeeds_def split: outcome.splits)
  have s1: "(slept @ [d]) @ map (\<lambda>i. (d * 2) * 2 ^ (i - Suc a)) [Suc a..<k]
              = slept @ map (\<lambda>i. d * 2 ^ (i - a)) [a..<k]"
    unfolding mp up2 by simp
  have s2: "Suc calls + (k - Suc a) + 1 = calls + (k - a) + 1" using ak by linarith
  show ?case unfolding up step ih s1 s2 ..
qed

text \<open>
  C6: with \<open>max_retries \<ge> 1\<close> (and a delay that is not negative), the action is called at
  most \<open>max_retries\<close> times. When no attempt returns a truthy value the call returns \<open>None\<close>
  (\<open>Exhausted\<close>) after \<open>max_retries\<close> calls, having slept \<open>max_retries - 1\<close> times, for
  \<open>retry_delay\<close>, twice that, four times that and so on, and not after the last attempt.
  When attempt \<open>k\<close> is the first to return a truthy value, that value is returned at once,
  after \<open>k + 1\<close> calls and the first \<open>k\<close> of those sleeps. The witness is the case of the
  spec: three attempts and a delay of 2 seconds give the sleeps 2 and 4.
\<close>

theorem retry_with_backoff_schedule:
  assumes "1 \<le> max_retries" and "0 \<le> retry_delay"
  shows "((\<forall>k. k < nat max_retries \<longrightarrow> \<not> succeeds truthy (action k)) \<longrightarrow>
            retry_with_backoff max_retries retry_delay truthy action =
              \<lparr>r_end = Exhausted,
               r_slept = map (\<lambda>i. retry_delay * 2 ^ i) [0..<nat max_retries - 1],
               r_calls = nat max_retries\<rparr>)
       \<and> (\<forall>k r. k < nat max_retries \<and> action k = Returned r \<and> truthy r \<and>
                 (\<forall>j. j < k \<longrightarrow> \<not> succeeds truthy (action j)) \<longrightarrow>
            retry_with_backoff max_retries retry_delay truthy action =
              \<lparr>r_end = Result r,
               r_slept = map (\<lambda>i. retry_delay * 2 ^ i) [0..<k],
               r_calls = Suc k\<rparr>)"
proof (intro conjI allI impI)
  define n where "n = nat max_retries"
  have n: "max_retries = int n" using assms(1) by (simp add: n_def)
  assume "\<forall>k. k < nat max_retries \<longrightarrow> \<not> succeeds truthy (action k)"
  then have "\<forall>k. 0 \<le> k \<and> k < n \<longrightarrow> \<not> succeeds truthy (action k)"
    by (simp add: n_def)
  from retry_loop_all_fail [OF assms(2) this, of "[]" 0]
  show "retry_with_backoff max_retries retry_delay truthy action =
          \<lparr>r_end = Exhausted,
           r_slept = map (\<lambda>i. retry_delay * 2 ^ i) [0..<nat max_retries - 1],
           r_calls = nat max_retries\<rparr>"
    by (simp add: retry_with_backoff_def n)
next
  fix k r
  define n where "n = nat max_retries"
  have n: "max_retries = int n" using assms(1) by (simp add: n_def)
  assume h: "k < nat max_retries \<and> action k = Returned r \<and> truthy r \<and>
             (\<forall>j. j < k \<longrightarrow> \<not> succeeds truthy (action j))"
  then have kn: "k < n" and ak: "action k = Returned r" and tr: "truthy r"
    and before: "\<forall>j. 0 \<le> j \<and> j < k \<longrightarrow> \<not> succeeds truthy (action j)"
    by (simp_all add: n_def)
  from retry_loop_first_success [OF assms(2) _ kn ak tr before, of "[]" 0]
  show "retry_with_backoff max_retries retry_delay truthy action =
          \<lparr>r_end = Result r,
           r_slept = map (\<lambda>i. retry_delay * 2 ^ i) [0..<k],
           r_calls = Suc k\<rparr>"
    by (simp add: retry_with_backoff_def n)
qed

theorem retry_with_backoff_schedule_witness:
  "retry_with_backoff 3 2 (\<lambda>b. b) (\<lambda>k. Returned False) =
     \<lparr>r_end = Exhausted, r_slept = [2, 4], r_calls = 3\<rparr>
   \<and> retry_with_backoff 3 2 (\<lambda>b. b) (\<lambda>k. if k = 1 then Returned True else Raised) =
     \<lparr>r_end = Result True, r_slept = [2], r_calls = 2\<rparr>"
proof -
  have l2: "[0..<nat 3 - 1] = [0, Suc 0]" and l1: "[0..<Suc 0] = [0]" and n3: "nat 3 = 3"
    by (simp_all add: upt_conv_Cons)
  have a: "\<forall>k. k < nat 3 \<longrightarrow> \<not> succeeds (\<lambda>b. b) ((\<lambda>k. Returned False) k)"
    by (simp add: succeeds_def)
  have b: "Suc 0 < nat 3
        \<and> (\<lambda>k. if k = 1 then Returned True else Raised) (Suc 0) = Returned True
        \<and> (\<lambda>b. b) True
        \<and> (\<forall>j. j < Suc 0 \<longrightarrow>
              \<not> succeeds (\<lambda>b. b) ((\<lambda>k. if k = 1 then Returned True else Raised) j))"
    by (simp add: succeeds_def)
  have h: "(1::int) \<le> 3" "(0::real) \<le> 2" by simp_all
  from retry_with_backoff_schedule [OF h, of "\<lambda>b. b" "\<lambda>k. Returned False"] a
  have c1: "retry_with_backoff 3 2 (\<lambda>b. b) (\<lambda>k. Returned False) =
     \<lparr>r_end = Exhausted, r_slept = map (\<lambda>i. 2 * 2 ^ i) [0..<nat 3 - 1], r_calls = nat 3\<rparr>"
    by blast
  from retry_with_backoff_schedule
         [OF h, of "\<lambda>b. b" "\<lambda>k. if k = 1 then Returned True else Raised"] b
  have c2: "retry_with_backoff 3 2 (\<lambda>b. b) (\<lambda>k. if k = 1 then Returned True else Raised) =
     \<lparr>r_end = Result True, r_slept = map (\<lambda>i. 2 * 2 ^ i) [0..<Suc 0], r_calls = Suc (Suc 0)\<rparr>"
    by blast
  show ?thesis
    using c1 c2 by (simp add: upt_conv_Cons numeral_2_eq_2)
qed

section \<open>Properties of the bottom-sheet rule\<close>






text \<open>
  The example of C3 holds: of two large buttons with vertical centres 900 and 400, in
  this order in the dump, the one at 400 is returned.
\<close>

lemma two_buttons_eval:
  "clickable_buttons dump_two_buttons =
  [\<lparr>b_x = 540, b_y = 900, b_bounds = (90, 840, 990, 960), b_width = 900, b_height = 120,
    b_text = ''Log in'', b_class = ''android.widget.Button''\<rparr>,
   \<lparr>b_x = 540, b_y = 400, b_bounds = (90, 340, 990, 460), b_width = 900, b_height = 120,
    b_text = ''Continue with Google'', b_class = ''android.widget.Button''\<rparr>]"
  by code_simp

lemma two_buttons_topmost:
  "find_real_login_button (Some dump_two_buttons) =
     Some (540, 400,
       \<lparr>b_x = 540, b_y = 400, b_bounds = (90, 340, 990, 460), b_width = 900, b_height = 120,
        b_text = ''Continue with Google'', b_class = ''android.widget.Button''\<rparr>)"
proof -
  have ne: "dump_two_buttons \<noteq> []" by (simp add: dump_two_buttons_def)
  show ?thesis using ne by (simp add: find_real_login_button_def two_buttons_eval)
qed

text \<open>
  A starred atom runs over a stretch of characters it accepts, when the match succeeds
  behind the stretch; so does the \<open>[^>]*\<close> that follows \<open><node\<close> in the patterns of the
  module. A match that is found is the first element of \<open>finditer\<close>.
\<close>

lemma rx_star_skip:
  assumes "\<forall>c \<in> set xs. atom_ok a c"
    and "rx_match (Star a # r) s (i + length xs) gs = Some m"
  shows "rx_match (Star a # r) (xs @ s) i gs = Some m"
  using assms by (induction xs arbitrary: i) simp_all

lemma node_star_skip:
  assumes "\<forall>c \<in> set xs. c \<noteq> CHR ''>''"
    and "rx_match (Star (NoneOf ''>'') # r) s (5 + length xs) gs = Some m"
  shows "rx_match (lit_i ''<node'' @ Star (NoneOf ''>'') # r) (''<node'' @ xs @ s) 0 gs = Some m"
proof -
  have "rx_match (Star (NoneOf ''>'') # r) (xs @ s) 5 gs = Some m"
    using assms by (intro rx_star_skip) simp_all
  then show ?thesis
    by (simp add: lit_i_def lower_char_def ascii_upper_def ascii_lower_def numeral_eq_Suc)
qed

lemma finditer_from_Some:
  assumes "rx_match p s i [] = Some (gs, e)" and "i < e" and "s \<noteq> []"
  shows "finditer_from p s i =
           \<lparr>m_start = i, m_end = e, m_groups = gs\<rparr> # finditer_from p (drop (e - i) s) e"
proof -
  obtain c cs where s: "s = c # cs" using assms(3) by (cases s) auto
  show ?thesis
    by (subst finditer_from.simps) (use assms(1,2) in \<open>simp add: s del: finditer_from.simps\<close>)
qed

lemma bounds_pattern:
  "rx_clickable_bounds = lit_i ''<node'' @ Star (NoneOf ''>'') # tl (drop 5 rx_clickable_bounds)"
  by code_simp

lemma node_pattern:
  "rx_clickable_node = lit_i ''<node'' @ Star (NoneOf ''>'') # tl (drop 5 rx_clickable_node)"
  by code_simp

text \<open>The dump with the long text, read by the locator and by the structural index.\<close>

lemma long_text_head_props:
  "\<forall>c \<in> set long_text_head. c \<noteq> CHR ''>''" "5 + length long_text_head = 522"
  by (auto simp: long_text_head_def)

lemma long_text_first_match:
  "rx_match rx_clickable_bounds dump_long_text_box 0 []
     = Some ([582, 584, 585, 588, 590, 593, 594, 597], 599)"
proof -
  have b: "rx_match (Star (NoneOf ''>'') # tl (drop 5 rx_clickable_bounds)) long_text_tail 522 []
             = Some ([582, 584, 585, 588, 590, 593, 594, 597], 599)"
    by code_simp
  show ?thesis
    unfolding dump_long_text_box_def
    by (subst bounds_pattern)
       (rule node_star_skip [OF long_text_head_props(1)], simp only: long_text_head_props(2), rule b)
qed

lemma long_text_drop: "drop 522 dump_long_text_box = long_text_tail"
  by (simp add: dump_long_text_box_def long_text_head_def)

lemma long_text_rest: "drop 599 dump_long_text_box = drop 77 long_text_tail"
proof -
  have "drop 77 (drop 522 dump_long_text_box) = drop (77 + 522) dump_long_text_box"
    by (rule drop_drop)
  then show ?thesis by (simp add: long_text_drop)
qed

lemma long_text_second_match:
  "finditer_from rx_clickable_bounds (drop 77 long_text_tail) 599 =
     [\<lparr>m_start = 602, m_end = 705, m_groups = [688, 690, 691, 694, 696, 699, 700, 703]\<rparr>]"
  by code_simp

lemma long_text_matches:
  "finditer rx_clickable_bounds dump_long_text_box =
     [\<lparr>m_start = 0, m_end = 599, m_groups = [582, 584, 585, 588, 590, 593, 594, 597]\<rparr>,
      \<lparr>m_start = 602, m_end = 705, m_groups = [688, 690, 691, 694, 696, 699, 700, 703]\<rparr>]"
proof -
  have ne: "dump_long_text_box \<noteq> []" by (simp add: dump_long_text_box_def)
  have "finditer_from rx_clickable_bounds dump_long_text_box 0 =
          \<lparr>m_start = 0, m_end = 599, m_groups = [582, 584, 585, 588, 590, 593, 594, 597]\<rparr> #
          finditer_from rx_clickable_bounds (drop (599 - 0) dump_long_text_box) 599"
    by (rule finditer_from_Some [OF long_text_first_match _ ne]) simp
  then show ?thesis
    by (simp only: finditer_def diff_zero long_text_rest long_text_second_match)
qed


lemma long_text_bounds:
  "bounds_of dump_long_text_box
     \<lparr>m_start = 0, m_end = 599, m_groups = [582, 584, 585, 588, 590, 593, 594, 597]\<rparr> 1
   = (90, 340, 990, 460)"
  by code_simp

lemma long_text_window_class:
  "attr_or_empty ''class'' (slice dump_long_text_box 0 500) = []"
  by code_simp

lemma long_text_window_text:
  "attr_or_empty ''text'' (slice dump_long_text_box 0 500) = []"
  by code_simp

lemma empty_class_no_input: "\<not> is_input_field []"
  by code_simp

lemma long_text_first_button:
  "login_button_of_match dump_long_text_box
     \<lparr>m_start = 0, m_end = 599, m_groups = [582, 584, 585, 588, 590, 593, 594, 597]\<rparr>
   = Some \<lparr>b_x = 540, b_y = 400, b_bounds = (90, 340, 990, 460), b_width = 900,
            b_height = 120, b_text = [], b_class = []\<rparr>"
  unfolding login_button_of_match_def long_text_bounds
  by (simp add: long_text_window_class long_text_window_text empty_class_no_input)

lemma long_text_second_button:
  "login_button_of_match dump_long_text_box
     \<lparr>m_start = 602, m_end = 705, m_groups = [688, 690, 691, 694, 696, 699, 700, 703]\<rparr>
   = Some \<lparr>b_x = 540, b_y = 900, b_bounds = (90, 840, 990, 960), b_width = 900,
            b_height = 120, b_text = ''Log in'', b_class = ''android.widget.Button''\<rparr>"
  by code_simp

lemma long_text_node_first_match:
  "rx_match rx_clickable_node dump_long_text_box 0 []
     = Some ([582, 584, 585, 588, 590, 593, 594, 597], 602)"
proof -
  have b: "rx_match (Star (NoneOf ''>'') # tl (drop 5 rx_clickable_node)) long_text_tail 522 []
             = Some ([582, 584, 585, 588, 590, 593, 594, 597], 602)"
    by code_simp
  show ?thesis
    unfolding dump_long_text_box_def
    by (subst node_pattern)
       (rule node_star_skip [OF long_text_head_props(1)], simp only: long_text_head_props(2), rule b)
qed

lemma long_text_node_rest: "drop 602 dump_long_text_box = drop 80 long_text_tail"
proof -
  have "drop 80 (drop 522 dump_long_text_box) = drop (80 + 522) dump_long_text_box"
    by (rule drop_drop)
  then show ?thesis by (simp add: long_text_drop)
qed

lemma long_text_node_second_match:
  "finditer_from rx_clickable_node (drop 80 long_text_tail) 602 =
     [\<lparr>m_start = 602, m_end = 708, m_groups = [688, 690, 691, 694, 696, 699, 700, 703]\<rparr>]"
  by code_simp

lemma long_text_nodes:
  "finditer rx_clickable_node dump_long_text_box =
     [\<lparr>m_start = 0, m_end = 602, m_groups = [582, 584, 585, 588, 590, 593, 594, 597]\<rparr>,
      \<lparr>m_start = 602, m_end = 708, m_groups = [688, 690, 691, 694, 696, 699, 700, 703]\<rparr>]"
proof -
  have ne: "dump_long_text_box \<noteq> []" by (simp add: dump_long_text_box_def)
  have "finditer_from rx_clickable_node dump_long_text_box 0 =
          \<lparr>m_start = 0, m_end = 602, m_groups = [582, 584, 585, 588, 590, 593, 594, 597]\<rparr> #
          finditer_from rx_clickable_node (drop (602 - 0) dump_long_text_box) 602"
    by (rule finditer_from_Some [OF long_text_node_first_match _ ne]) simp
  then show ?thesis
    by (simp only: finditer_def diff_zero long_text_node_rest long_text_node_second_match)
qed

lemma long_text_first_class:
  "attr_or_empty ''class'' (group0 dump_long_text_box
     \<lparr>m_start = 0, m_end = 602, m_groups = [582, 584, 585, 588, 590, 593, 594, 597]\<rparr>)
   = ''android.widget.EditText''"
  by code_simp

lemma long_text_second_class:
  "attr_or_empty ''class'' (group0 dump_long_text_box
     \<lparr>m_start = 602, m_end = 708, m_groups = [688, 690, 691, 694, 696, 699, 700, 703]\<rparr>)
   = ''android.widget.Button''"
  by code_simp

lemma e_class_element_of_match:
  "e_class (element_of_match t m) = attr_or_empty ''class'' (group0 t m)"
  by (simp add: element_of_match_def Let_def split: prod.splits)

text \<open>
  C3 does not hold of the code: the filter does not keep only the elements whose class
  is not that of an input field. The class of a node is searched in the 500 characters
  that start at the node; a large clickable text box whose text is 500 characters long
  has its class beyond them, is kept as a button with an empty class, and, lying above
  the one real button of the dump, is what the bottom-sheet rule returns. The structural
  index reads the class \<open>android.widget.EditText\<close> for the same node, an input class.
\<close>

theorem bottom_sheet_returns_text_box:
  "map e_class (find_clickable_elements (Some dump_long_text_box))
     = [''android.widget.EditText'', ''android.widget.Button'']
   \<and> is_input_field ''android.widget.EditText''
   \<and> find_real_login_button (Some dump_long_text_box) =
       Some (540, 400,
         \<lparr>b_x = 540, b_y = 400, b_bounds = (90, 340, 990, 460), b_width = 900,
          b_height = 120, b_text = [], b_class = []\<rparr>)"
proof -
  have ne: "dump_long_text_box \<noteq> []" by (simp add: dump_long_text_box_def)
  have a: "map e_class (find_clickable_elements (Some dump_long_text_box))
             = [''android.widget.EditText'', ''android.widget.Button'']"
    using ne
    by (simp add: find_clickable_elements_def long_text_nodes e_class_element_of_match
          long_text_first_class long_text_second_class)
  have b: "is_input_field ''android.widget.EditText''" by code_simp
  have "clickable_buttons dump_long_text_box =
          [\<lparr>b_x = 540, b_y = 400, b_bounds = (90, 340, 990, 460), b_width = 900,
            b_height = 120, b_text = [], b_class = []\<rparr>,
           \<lparr>b_x = 540, b_y = 900, b_bounds = (90, 840, 990, 960), b_width = 900,
            b_height = 120, b_text = ''Log in'', b_class = ''android.widget.Button''\<rparr>]"
    by (simp add: clickable_buttons_def long_text_matches long_text_first_button
          long_text_second_button)
  then have c: "find_real_login_button (Some dump_long_text_box) =
       Some (540, 400,
         \<lparr>b_x = 540, b_y = 400, b_bounds = (90, 340, 990, 460), b_width = 900,
          b_height = 120, b_text = [], b_class = []\<rparr>)"
    using ne by (simp add: find_real_login_button_def)
  show ?thesis using a b c by simp
qed








section \<open>Properties of the structural element index\<close>


lemma element_of_match_fields:
  "e_bounds (element_of_match t m) = bounds_of t m 1
   \<and> (case e_bounds (element_of_match t m) of (x1, y1, x2, y2) \<Rightarrow>
         e_width (element_of_match t m) = x2 - x1
       \<and> e_height (element_of_match t m) = y2 - y1
       \<and> e_x (element_of_match t m) = (x1 + x2) div 2
       \<and> e_y (element_of_match t m) = (y1 + y2) div 2)"
  by (simp add: element_of_match_def Let_def split: prod.splits)


lemma clickable_elements_sizes:
  assumes "e \<in> set (find_clickable_elements tree)" and "e_bounds e = (x1, y1, x2, y2)"
  shows "e_width e = x2 - x1 \<and> e_height e = y2 - y1"
proof -
  from assms(1) obtain t m where "e = element_of_match t m"
    by (auto simp: find_clickable_elements_def split: option.splits if_splits)
  then show ?thesis using element_of_match_fields [of t m] assms(2)
    by (auto split: prod.splits)
qed









section \<open>Properties of the keyword match\<close>

lemma login_form_method1:
  "method1 dump_login_form [''login'', ''sign in'']
     (finditer (rx_clickable_with ''text'') dump_login_form) = None"
  by code_simp

lemma login_form_method1b:
  "method1b dump_login_form [''login'', ''sign in'']
     (finditer rx_clickable_node dump_login_form) =
     Some (540, 560,
       \<lparr>f_text = ''Login'', f_bounds = (100, 500, 980, 620), f_center = (540, 560),
        f_class = None\<rparr>)"
  by code_simp

lemma login_form_keywords: "map str_lower [''login'', ''sign in''] = [''login'', ''sign in'']"
  by code_simp

lemma login_form_elements:
  "find_clickable_elements (Some dump_login_form) =
     [\<lparr>e_text = [], e_content_desc = [], e_class = ''android.widget.EditText'',
       e_resource_id = [], e_package = [], e_bounds = (100, 500, 980, 620),
       e_x = 540, e_y = 560, e_width = 880, e_height = 120\<rparr>,
      \<lparr>e_text = ''Login'', e_content_desc = [], e_class = ''android.widget.Button'',
       e_resource_id = [], e_package = [], e_bounds = (100, 700, 980, 820),
       e_x = 540, e_y = 760, e_width = 880, e_height = 120\<rparr>]"
  by code_simp

lemma edittext_is_input: "is_input_field ''android.widget.EditText''"
  by code_simp


text \<open>
  C7 does not hold of the code: no method of \<open>find_button_by_keywords\<close> looks at the class
  of the node it returns. On the login form above, with the keywords "login" and
  "sign in", method 1 finds nothing (the \<open>text\<close> attribute precedes \<open>clickable\<close>), and method
  1B returns the first clickable node that is followed by a node whose text holds a
  keyword: the text box, an \<open>android.widget.EditText\<close>, with the label of the button.
\<close>

theorem keyword_match_returns_text_box:
  "find_button_by_keywords (Some dump_login_form) tree2 [''login'', ''sign in''] =
     Some (540, 560,
       \<lparr>f_text = ''Login'', f_bounds = (100, 500, 980, 620), f_center = (540, 560),
        f_class = None\<rparr>)
   \<and> find_clickable_elements (Some dump_login_form) =
     [\<lparr>e_text = [], e_content_desc = [], e_class = ''android.widget.EditText'',
       e_resource_id = [], e_package = [], e_bounds = (100, 500, 980, 620),
       e_x = 540, e_y = 560, e_width = 880, e_height = 120\<rparr>,
      \<lparr>e_text = ''Login'', e_content_desc = [], e_class = ''android.widget.Button'',
       e_resource_id = [], e_package = [], e_bounds = (100, 700, 980, 820),
       e_x = 540, e_y = 760, e_width = 880, e_height = 120\<rparr>]
   \<and> is_input_field ''android.widget.EditText''"
proof -
  have ne: "dump_login_form \<noteq> []" by (simp add: dump_login_form_def)
  have "find_button_by_keywords (Some dump_login_form) tree2 [''login'', ''sign in''] =
     Some (540, 560,
       \<lparr>f_text = ''Login'', f_bounds = (100, 500, 980, 620), f_center = (540, 560),
        f_class = None\<rparr>)"
    unfolding find_button_by_keywords_def Let_def login_form_keywords
    using ne by (simp add: login_form_method1 login_form_method1b)
  then show ?thesis
    using login_form_elements edittext_is_input by simp
qed

section \<open>Properties of the send control locator\<close>

text \<open>The positional filters of the loop, on an element whose sizes agree with its bounds.\<close>

lemma send_candidate_None_iff:
  assumes "e_bounds e = (x1, y1, x2, y2)" and "e_width e = x2 - x1" and "e_height e = y2 - y1"
  shows "(send_candidate ix iy e = None) =
         (\<not> (0 < e_x e \<and> 0 < e_y e \<and> ix + 20 < e_x e \<and> e_x e - ix \<le> 450
             \<and> \<bar>e_y e - iy\<bar> \<le> 120
             \<and> 20 \<le> e_width e \<and> e_width e \<le> 180 \<and> 20 \<le> e_height e \<and> e_height e \<le> 180))"
  using assms by (auto simp: send_candidate_def Let_def)

lemma collect_candidates_append:
  "collect_candidates ix iy es acc = acc @ List.map_filter (send_candidate ix iy) es"
  by (induction es arbitrary: acc) (simp_all split: option.splits)

lemma collect_candidates_empty:
  "(\<forall>e \<in> set es. send_candidate ix iy e = None) \<Longrightarrow> collect_candidates ix iy es [] = []"
  by (induction es) (simp_all add: collect_candidates_append)

text \<open>
  C10: \<open>find_send_button_near_input\<close> reports "not found" exactly when the list of clickable
  elements is empty. When the list is not empty and no element passes the positional
  filters (a positive centre, more than 20 and at most 450 pixels to the right of the
  input, at most 120 pixels above or below it, width and height between 20 and 180), it
  returns the fixed coordinates (990, 1427) with the fallback record.
\<close>

theorem send_button_fallback:
  "((find_send_button_near_input tree ix iy = None) = (find_clickable_elements tree = []))
   \<and> (find_clickable_elements tree \<noteq> []
        \<and> (\<forall>e \<in> set (find_clickable_elements tree).
              \<not> (0 < e_x e \<and> 0 < e_y e \<and> ix + 20 < e_x e \<and> e_x e - ix \<le> 450
                  \<and> \<bar>e_y e - iy\<bar> \<le> 120
                  \<and> 20 \<le> e_width e \<and> e_width e \<le> 180
                  \<and> 20 \<le> e_height e \<and> e_height e \<le> 180))
      \<longrightarrow> find_send_button_near_input tree ix iy =
            Some (990, 1427, Fallback 990 1427 ''send (fallback)''))"
proof (intro conjI impI)
  show "(find_send_button_near_input tree ix iy = None) = (find_clickable_elements tree = [])"
    by (simp add: find_send_button_near_input_def Let_def split: list.splits)
next
  assume h: "find_clickable_elements tree \<noteq> []
        \<and> (\<forall>e \<in> set (find_clickable_elements tree).
              \<not> (0 < e_x e \<and> 0 < e_y e \<and> ix + 20 < e_x e \<and> e_x e - ix \<le> 450
                  \<and> \<bar>e_y e - iy\<bar> \<le> 120
                  \<and> 20 \<le> e_width e \<and> e_width e \<le> 180
                  \<and> 20 \<le> e_height e \<and> e_height e \<le> 180))"
  have "\<forall>e \<in> set (find_clickable_elements tree). send_candidate ix iy e = None"
  proof
    fix e assume e: "e \<in> set (find_clickable_elements tree)"
    obtain x1 y1 x2 y2 where b: "e_bounds e = (x1, y1, x2, y2)"
      by (cases "e_bounds e") auto
    from clickable_elements_sizes [OF e b]
    have "e_width e = x2 - x1" "e_height e = y2 - y1" by simp_all
    from send_candidate_None_iff [OF b this, of ix iy] h e
    show "send_candidate ix iy e = None" by blast
  qed
  then have "collect_candidates ix iy (find_clickable_elements tree) [] = []"
    by (rule collect_candidates_empty)
  then show "find_send_button_near_input tree ix iy =
            Some (990, 1427, Fallback 990 1427 ''send (fallback)'')"
    using h by (simp add: find_send_button_near_input_def Let_def CHATGPT_SEND_BUTTON_def)
qed

lemma two_buttons_elements:
  "find_clickable_elements (Some dump_two_buttons) =
     [\<lparr>e_text = ''Log in'', e_content_desc = [], e_class = ''android.widget.Button'',
       e_resource_id = [], e_package = [], e_bounds = (90, 840, 990, 960),
       e_x = 540, e_y = 900, e_width = 900, e_height = 120\<rparr>,
      \<lparr>e_text = ''Continue with Google'', e_content_desc = [],
       e_class = ''android.widget.Button'',
       e_resource_id = [], e_package = [], e_bounds = (90, 340, 990, 460),
       e_x = 540, e_y = 400, e_width = 900, e_height = 120\<rparr>]"
  by code_simp

theorem send_button_fallback_witness:
  "find_send_button_near_input (Some dump_two_buttons) 500 900 =
     Some (990, 1427, Fallback 990 1427 ''send (fallback)'')
   \<and> find_send_button_near_input None 500 900 = None"
proof -
  have h: "find_clickable_elements (Some dump_two_buttons) \<noteq> []
        \<and> (\<forall>e \<in> set (find_clickable_elements (Some dump_two_buttons)).
              \<not> (0 < e_x e \<and> 0 < e_y e \<and> 500 + 20 < e_x e \<and> e_x e - 500 \<le> 450
                  \<and> \<bar>e_y e - 900\<bar> \<le> 120
                  \<and> 20 \<le> e_width e \<and> e_width e \<le> 180
                  \<and> 20 \<le> e_height e \<and> e_height e \<le> 180))"
    by (simp add: two_buttons_elements)
  have n: "find_clickable_elements None = []"
    by (simp add: find_clickable_elements_def)
  from send_button_fallback [of "Some dump_two_buttons" 500 900, THEN conjunct2, rule_format, OF h]
    send_button_fallback [of None 500 900, THEN conjunct1] n
  show ?thesis by simp
qed

section \<open>Properties of the workflow\<close>

text \<open>
  \<open>_observe\<close> adds one to \<open>iteration_count\<close> on every entry, and once the count exceeds
  \<open>max_iterations\<close> it sets the error and \<open>task_complete\<close> and captures no screen.
\<close>

lemma observe_increments:
  "iteration_count (fst (observe (state, w))) = iteration_count state + 1"
  by (simp add: observe_def Let_def)

lemma observe_forced_exit:
  assumes "max_iterations \<le> iteration_count state"
  shows "task_complete (fst (observe (state, w)))
       \<and> error (fst (observe (state, w))) = Some ''Maximum iterations reached. Task may be incomplete.''
       \<and> captures (snd (observe (state, w))) = captures w"
  using assms by (simp add: observe_def Let_def)

text \<open>
  Neither \<open>_authenticate\<close> nor \<open>_verify\<close> on a \<open>login\<close> action writes \<open>needs_auth\<close>, and
  \<open>_is_complete\<close> answers \<open>authenticate\<close> whenever \<open>needs_auth\<close> is set: the edge from \<open>verify\<close> to
  \<open>authenticate\<close> and the edge back form a cycle that does not pass through \<open>observe\<close>.
\<close>

lemma authenticate_keeps:
  "needs_auth (fst (authenticate e (state, w))) = needs_auth state
   \<and> intent_action (fst (authenticate e (state, w))) = intent_action state"
  by (simp add: authenticate_def Let_def split: prod.splits)

lemma verify_login_keeps:
  assumes "intent_action state = Some ''login''"
  shows "needs_auth (verify e state) = needs_auth state
       \<and> intent_action (verify e state) = Some ''login''"
  using assms by (simp add: verify_def)

lemma is_complete_needs_auth: "needs_auth state \<Longrightarrow> is_complete state = ''authenticate''"
  by (simp add: is_complete_def)

lemma step_authenticate:
  "step e Authenticate c = (Verify, authenticate e c)"
  by (simp add: step_def)

lemma step_verify_login:
  assumes "needs_auth (fst c)" and "intent_action (fst c) = Some ''login''"
  shows "step e Verify c = (Authenticate, verify e (fst c), snd c)"
  using assms verify_login_keeps [of "fst c" e]
  by (simp add: step_def Let_def is_complete_needs_auth)

lemma login_cycle_never_ends:
  assumes "n = Authenticate \<or> n = Verify"
    and "needs_auth (fst c)" and "intent_action (fst c) = Some ''login''"
  shows "run e k n c = None"
  using assms
proof (induction k arbitrary: n c)
  case 0
  then show ?case by auto
next
  case (Suc k)
  from Suc.prems(1) show ?case
  proof
    assume n: "n = Authenticate"
    obtain state w where c: "c = (state, w)" by (cases c)
    have "run e k Verify (authenticate e c) = None"
      using Suc.prems(2,3) authenticate_keeps [of e state w]
      by (intro Suc.IH) (simp_all add: c)
    then show ?thesis by (simp add: n step_authenticate)
  next
    assume n: "n = Verify"
    have "run e k Authenticate (verify e (fst c), snd c) = None"
      using Suc.prems(2,3) verify_login_keeps [of "fst c" e]
      by (intro Suc.IH) simp_all
    then show ?thesis using step_verify_login [OF Suc.prems(2,3), of e] by (simp add: n)
  qed
qed

text \<open>
  C4 does not hold of the code: the iteration count bounds the entries of \<open>observe\<close>
  only. For a command that \<open>_parse_intent\<close> reads as the action \<open>login\<close>, whatever the
  other collaborators do and whether the login succeeds or fails, the workflow does not
  reach \<open>END\<close> in any number of steps: \<open>_act\<close> sets \<open>needs_auth\<close>, and from then on control
  goes from \<open>verify\<close> to \<open>authenticate\<close> and back. \<open>observe\<close> is entered once, so the count
  is 1 and the cap of 5 is never reached.
\<close>

theorem login_command_never_ends:
  assumes "parse_intent e cmd = (Some ''login'', ap, wl)"
  shows "run e k Observe (initial_state cmd, initial_world) = None
       \<and> iteration_count (fst (observe (initial_state cmd, initial_world))) = 1"
proof -
  define c1 where "c1 = observe (initial_state cmd, initial_world)"
  define s2 where "s2 = analyze e (fst c1)"
  have it: "iteration_count (fst c1) = 1"
    by (simp add: c1_def observe_def initial_state_def Let_def max_iterations_def)
  have o: "fst c1 = (initial_state cmd)\<lparr>iteration_count := 1\<rparr>"
    by (simp add: c1_def observe_def initial_state_def Let_def max_iterations_def)
  have a: "s2 = (initial_state cmd)\<lparr>iteration_count := 1, intent_action := Some ''login'',
                   intent_app := ap, intent_wants_login := wl, needs_auth := wl\<rparr>"
    unfolding s2_def o using assms by (simp add: analyze_def initial_state_def truthy_str_def)
  have f2: "intent_action s2 = Some ''login''" "needs_auth s2 = wl" "\<not> action_success s2"
    "\<not> session_active s2" "\<not> google_login_complete s2" "\<not> query_session_follow_up s2"
    by (simp_all add: a initial_state_def)
  have s1: "step e Observe (initial_state cmd, initial_world) = (Analyze, c1)"
    by (simp add: step_def c1_def)
  have r: "run e k Observe (initial_state cmd, initial_world) = None"
  proof (cases k)
    case 0
    then show ?thesis by simp
  next
    case k: (Suc k1)
    show ?thesis
    proof (cases k1)
      case 0
      then show ?thesis using k s1 by simp
    next
      case k1: (Suc k2)
      show ?thesis
      proof (cases wl)
        case True
        have sa: "should_authenticate s2 = ''authenticate''"
          using True by (simp add: should_authenticate_def f2)
        have st: "step e Analyze c1 = (Authenticate, s2, snd c1)"
          using sa by (simp add: step_def Let_def s2_def)
        have "run e k2 Authenticate (s2, snd c1) = None"
          by (rule login_cycle_never_ends) (use True in \<open>simp_all add: f2\<close>)
        then show ?thesis using k k1 s1 st by simp
      next
        case False
        have sa: "should_authenticate s2 = ''act''"
          using False by (simp add: should_authenticate_def f2)
        have st: "step e Analyze c1 = (Act, s2, snd c1)"
          using sa by (simp add: step_def Let_def s2_def)
        have a3: "needs_auth (act e s2)" "intent_action (act e s2) = Some ''login''"
          by (simp_all add: act_def f2)
        have s3: "step e Act (s2, snd c1) = (Verify, act e s2, snd c1)"
          by (simp add: step_def)
        have "run e k3 Verify (act e s2, snd c1) = None" for k3
          by (rule login_cycle_never_ends) (use a3 in simp_all)
        then show ?thesis using k k1 s1 st s3 by (cases k2) simp_all
      qed
    qed
  qed
  show ?thesis using r it by (simp add: c1_def)
qed

theorem login_command_never_ends_witness:
  "run login_env 1000 Observe (initial_state ''login'', initial_world) = None"
proof -
  have p: "parse_intent login_env ''login'' = (Some ''login'', None, False)"
    by (simp add: login_env_def)
  from login_command_never_ends [OF p, of 1000] show ?thesis by simp
qed

end
